theory Spec2Isabelle
  imports Complex_Main "HOL-Library.AList"
begin

section \<open>JavaScript values\<close>

text \<open>
  The lifecycle controller of \<^verbatim>\<open>src/core/core.js\<close> is embedded as functions on a
  record \<open>world\<close>: the fields of one p5 instance together with the part of the browser
  the controller touches (the global namespace, listeners, timers, the element tree).

  Numbers are JavaScript numbers with their special values. A finite number is a
  rational: the rounding of a quotient to a double and the sign of zero are not
  modelled.
\<close>

datatype jsnum = Num rat | PosInf | NegInf | NaN

fun js_neg :: "jsnum \<Rightarrow> jsnum" where
  "js_neg (Num a) = Num (- a)"
| "js_neg PosInf = NegInf"
| "js_neg NegInf = PosInf"
| "js_neg NaN = NaN"

fun js_add :: "jsnum \<Rightarrow> jsnum \<Rightarrow> jsnum" where
  "js_add (Num a) (Num b) = Num (a + b)"
| "js_add NaN _ = NaN"
| "js_add _ NaN = NaN"
| "js_add PosInf NegInf = NaN"
| "js_add NegInf PosInf = NaN"
| "js_add PosInf _ = PosInf"
| "js_add _ PosInf = PosInf"
| "js_add NegInf _ = NegInf"
| "js_add _ NegInf = NegInf"

definition js_sub :: "jsnum \<Rightarrow> jsnum \<Rightarrow> jsnum" where
  "js_sub a b = js_add a (js_neg b)"

fun js_div :: "jsnum \<Rightarrow> jsnum \<Rightarrow> jsnum" where
  "js_div (Num a) (Num b) =
     (if b = 0 then (if a = 0 then NaN else if 0 < a then PosInf else NegInf)
      else Num (a / b))"
| "js_div NaN _ = NaN"
| "js_div _ NaN = NaN"
| "js_div (Num a) _ = Num 0"
| "js_div PosInf (Num b) = (if b < 0 then NegInf else PosInf)"
| "js_div NegInf (Num b) = (if b < 0 then PosInf else NegInf)"
| "js_div _ _ = NaN"

fun js_finite :: "jsnum \<Rightarrow> bool" where
  "js_finite (Num a) = True"
| "js_finite _ = False"

text \<open>
  A user-supplied function is described by what the controller can observe of it: the
  loader calls it makes when it runs as the preload hook (each on the global namespace or
  on the instance, each with a loader that completes synchronously or later), and whether
  it then returns or throws. The setup and draw hooks are opaque apart from their outcome.
\<close>

datatype outcome = Returns | Throws

datatype timing = Sync | Async

datatype receiver = OnWindow | OnInstance

datatype call = Load receiver string timing

datatype jsval =
    JUndef
  | JNull
  | JNumber jsnum
  | JBool bool
  | JStr string
  | JObj string
  | JFun string
  | JBound jsval
  | JWrapper string
  | JUser "call list" outcome

text \<open>
  \<open>JStr s\<close> is a string, \<open>JObj l\<close> any other value that is an object but no function
  (an object, an array), known by a label, \<open>JFun l\<close> a function known by a label, \<open>JBound f\<close> the result of \<open>f.bind(this)\<close>,
  \<open>JWrapper f\<close> the closure \<open>function(path) { return context._preload(f, path); }\<close>
  that \<open>_start\<close> installs. Function identity is structural. In arithmetic a value
  that is no number, boolean or \<open>null\<close> converts to \<open>NaN\<close>: strings that spell a
  number, and \<open>+\<close> as string concatenation, are not modelled.
\<close>

fun truthy :: "jsval \<Rightarrow> bool" where
  "truthy JUndef = False"
| "truthy JNull = False"
| "truthy (JNumber n) = (n \<noteq> Num 0 \<and> n \<noteq> NaN)"
| "truthy (JBool b) = b"
| "truthy (JStr s) = (s \<noteq> [])"
| "truthy _ = True"

fun is_function :: "jsval \<Rightarrow> bool" where
  "is_function (JFun l) = True"
| "is_function (JBound f) = True"
| "is_function (JWrapper f) = True"
| "is_function (JUser cs oc) = True"
| "is_function _ = False"

fun is_object :: "jsval \<Rightarrow> bool" where
  "is_object (JObj l) = True"
| "is_object v = is_function v"

fun to_number :: "jsval \<Rightarrow> jsnum" where
  "to_number (JNumber n) = n"
| "to_number JNull = Num 0"
| "to_number (JBool b) = Num (if b then 1 else 0)"
| "to_number _ = NaN"

definition js_or :: "jsval \<Rightarrow> jsval \<Rightarrow> jsval" where
  "js_or a b = (if truthy a then a else b)"

section \<open>The instance and its environment\<close>

datatype task = FrameTick | DrawDefer

datatype node = NodeId string | NodeElt nat

datatype checkpoint = Checkpoint

datatype action =
    Invoke string
  | External string
  | TimerSet nat
  | TimerClear nat
  | SetupPhase

record element =
  elt :: nat
  el_events :: "(string \<times> jsval) list"

text \<open>
  The first group of fields are the properties the constructor gives the instance
  (lines 138-167) that the code reaches as \<open>this._x\<close>; \<open>own\<close> holds the instance's
  other own properties, those reached through a computed name (\<open>_setProperty\<close>,
  \<open>context[f]\<close>, the hooks a sketch closure attaches, \<open>_frameRate\<close> and
  \<open>_lastFrameTime\<close>). \<open>proto\<close> is the shared capability table \<open>p5.prototype\<close>
  in enumeration order, \<open>preloadFuncs\<close> and \<open>removeFuncs\<close> its two registries.
  The rest is the browser: the global namespace \<open>win\<close>, the event types
  \<open>handlerEvents\<close> for which the global object has an event-handler attribute
  \<open>on\<close> + type, the listeners on window and on elements, the parent of each element, the armed timers (identifier, task, delay), the
  queued \<open>requestDraw\<close> callbacks, the loads in flight, and the wall clock in
  milliseconds. \<open>trace\<close> records, in order, the hook and capability calls and the timer
  operations made so far; it is the only field the source does not have.
\<close>

record world =
  setupDone :: bool
  pixelDensity :: rat
  startTime :: int
  userNode :: "node option"
  curElement :: "nat option"
  elements :: "element list"
  updateInterval :: nat
  drawInterval :: "nat option"
  isGlobal :: bool
  loop :: bool
  styles :: "checkpoint list"
  events :: "(string \<times> jsval) list"
  own :: "(string \<times> jsval) list"
  proto :: "(string \<times> jsval) list"
  preloadFuncs :: "string list"
  removeFuncs :: "string list"
  constants :: "(string \<times> jsval) list"
  win :: "string \<rightharpoonup> jsval"
  listeners :: "(string \<times> jsval) list"
  elt_listeners :: "(nat \<times> string \<times> jsval) list"
  parent :: "nat \<rightharpoonup> nat"
  docIds :: "string \<rightharpoonup> nat"
  docReady :: bool
  handlerEvents :: "string list"
  hidden :: "nat list"
  devicePixelRatio :: rat
  clock :: int
  armed :: "(nat \<times> task \<times> jsnum) list"
  nextTimer :: nat
  drawRequests :: nat
  loads :: "nat list"
  nextLoad :: nat
  trace :: "action list"

definition eventNames :: "string list" where
  "eventNames = [''mousemove'', ''mousedown'', ''mouseup'', ''click'', ''mousewheel'',
     ''mouseover'', ''mouseout'', ''keydown'', ''keyup'', ''keypress'', ''touchstart'',
     ''touchmove'', ''touchend'']"

definition log :: "action \<Rightarrow> world \<Rightarrow> world" where
  "log a w = w\<lparr>trace := trace w @ [a]\<rparr>"

text \<open>
  Property lookup: \<open>lookup\<close> reads a table, \<open>own_or_proto\<close> follows the prototype
  chain of the instance, so that \<open>inst_get w k\<close> is \<open>this[k]\<close> for a computed name.
\<close>

definition lookup :: "(string \<times> jsval) list \<Rightarrow> string \<Rightarrow> jsval" where
  "lookup al k = (case map_of al k of Some v \<Rightarrow> v | None \<Rightarrow> JUndef)"

definition own_or_proto ::
  "(string \<times> jsval) list \<Rightarrow> (string \<times> jsval) list \<Rightarrow> string \<Rightarrow> jsval" where
  "own_or_proto ow pr k = (case map_of ow k of Some v \<Rightarrow> v | None \<Rightarrow> lookup pr k)"

definition proto_get :: "world \<Rightarrow> string \<Rightarrow> jsval" where
  "proto_get w k = lookup (proto w) k"

definition inst_get :: "world \<Rightarrow> string \<Rightarrow> jsval" where
  "inst_get w k = own_or_proto (own w) (proto w) k"

definition win_get :: "world \<Rightarrow> string \<Rightarrow> jsval" where
  "win_get w k = (case win w k of Some v \<Rightarrow> v | None \<Rightarrow> JUndef)"

definition this_put :: "string \<Rightarrow> jsval \<Rightarrow> world \<Rightarrow> world" where
  "this_put k v w = w\<lparr>own := AList.update k v (own w)\<rparr>"

text \<open>
  \<open>window[k] = v\<close>. An event-handler attribute of the global object takes a value
  that is not an object as \<open>null\<close>; \<open>stored hs k v\<close> is what the assignment leaves
  at \<open>k\<close>. \<open>win\<close> holds what has been assigned: the \<open>null\<close> that an unassigned
  handler attribute reads as is not modelled, and no code of this file reads one.
\<close>

definition stored :: "string list \<Rightarrow> string \<Rightarrow> jsval \<Rightarrow> jsval" where
  "stored hs k v =
     (if take 2 k = ''on'' \<and> drop 2 k \<in> set hs \<and> \<not> is_object v then JNull else v)"

definition win_put :: "string \<Rightarrow> jsval \<Rightarrow> world \<Rightarrow> world" where
  "win_put k v w = w\<lparr>win := (win w)(k \<mapsto> stored (handlerEvents w) k v)\<rparr>"

definition win_delete :: "string \<Rightarrow> world \<Rightarrow> world" where
  "win_delete k w = w\<lparr>win := (win w)(k := None)\<rparr>"

text \<open>\<open>var context = this._isGlobal ? window : this\<close>, read and written by name.\<close>

definition ctx_get :: "world \<Rightarrow> string \<Rightarrow> jsval" where
  "ctx_get w k = (if isGlobal w then win_get w k else inst_get w k)"

definition ctx_put :: "string \<Rightarrow> jsval \<Rightarrow> world \<Rightarrow> world" where
  "ctx_put k v w = (if isGlobal w then win_put k v w else this_put k v w)"

text \<open>
  \<open>setTimeout\<close> and \<open>setInterval\<close> draw their identifiers from one counter, and
  \<open>clearTimeout\<close> and \<open>clearInterval\<close> cancel either kind.
\<close>

definition setTimer :: "task \<Rightarrow> jsnum \<Rightarrow> world \<Rightarrow> nat \<times> world" where
  "setTimer t d w =
     (nextTimer w,
      log (TimerSet (nextTimer w))
        (w\<lparr>armed := armed w @ [(nextTimer w, t, d)], nextTimer := Suc (nextTimer w)\<rparr>))"

definition clearTimer :: "nat \<Rightarrow> world \<Rightarrow> world" where
  "clearTimer i w = log (TimerClear i) (w\<lparr>armed := filter (\<lambda>x. fst x \<noteq> i) (armed w)\<rparr>)"

definition addEventListener :: "string \<Rightarrow> jsval \<Rightarrow> world \<Rightarrow> world" where
  "addEventListener e h w =
     (if (e, h) \<in> set (listeners w) then w else w\<lparr>listeners := listeners w @ [(e, h)]\<rparr>)"

definition removeEventListener :: "string \<Rightarrow> jsval \<Rightarrow> world \<Rightarrow> world" where
  "removeEventListener e h w =
     (if h = JNull \<or> h = JUndef then w else w\<lparr>listeners := removeAll (e, h) (listeners w)\<rparr>)"

definition elt_removeEventListener :: "nat \<Rightarrow> string \<Rightarrow> jsval \<Rightarrow> world \<Rightarrow> world" where
  "elt_removeEventListener n e h w =
     (if h = JNull \<or> h = JUndef then w
      else w\<lparr>elt_listeners := removeAll (n, e, h) (elt_listeners w)\<rparr>)"

text \<open>Sequencing under exceptions: a throw skips what follows and keeps the state reached.\<close>

definition andThen ::
  "outcome \<times> world \<Rightarrow> (world \<Rightarrow> outcome \<times> world) \<Rightarrow> outcome \<times> world" where
  "andThen r f = (case r of (Returns, w) \<Rightarrow> f w | (Throws, w) \<Rightarrow> (Throws, w))"

section \<open>Capabilities outside this file\<close>

text \<open>
  \<open>createCanvas\<close>, \<open>scale\<close>, the loaders and the removal hooks are capabilities
  defined elsewhere; a call to one is recorded in the trace and returns.
\<close>

definition external :: "string \<Rightarrow> world \<Rightarrow> outcome \<times> world" where
  "external name w = (Returns, log (External name) w)"

text \<open>
  Modelled from the spec: \<open>push\<close> and \<open>pop\<close> are not in this file. Section 4.3 has them
  save and restore a drawing-state checkpoint; the constructor declares the stack
  \<open>styles\<close> they work on.
\<close>

definition push :: "world \<Rightarrow> outcome \<times> world" where
  "push w = (Returns, log (External ''push'') (w\<lparr>styles := styles w @ [Checkpoint]\<rparr>))"

definition pop :: "world \<Rightarrow> outcome \<times> world" where
  "pop w = (Returns, log (External ''pop'') (w\<lparr>styles := butlast (styles w)\<rparr>))"

text \<open>A call of the user hook \<open>name\<close> (setup or draw), whose value is the function \<open>f\<close>.\<close>

fun hook_outcome :: "jsval \<Rightarrow> outcome" where
  "hook_outcome (JUser cs oc) = oc"
| "hook_outcome _ = Returns"

definition call_hook :: "string \<Rightarrow> jsval \<Rightarrow> world \<Rightarrow> outcome \<times> world" where
  "call_hook name f w = (hook_outcome f, log (Invoke name) w)"

section \<open>The controller\<close>

text \<open>\<open>_setProperty\<close> (lines 283-288).\<close>

definition p5_setProperty :: "string \<Rightarrow> jsval \<Rightarrow> world \<Rightarrow> world" where
  "p5_setProperty prop v w =
     (let w1 = this_put prop v w in if isGlobal w1 then win_put prop v w1 else w1)"

text \<open>\<open>_runFrames\<close> (lines 274-281) and the callback of its interval.\<close>

definition frameDelay :: "world \<Rightarrow> jsnum" where
  "frameDelay w = js_div (Num 1000) (to_number (inst_get w ''_targetFrameRate''))"

definition p5_runFrames :: "world \<Rightarrow> world" where
  "p5_runFrames w =
     (let w1 = (if updateInterval w \<noteq> 0 then clearTimer (updateInterval w) w else w);
          r = setTimer FrameTick (frameDelay w1) w1
      in (snd r)\<lparr>updateInterval := fst r\<rparr>)"

definition frame_tick :: "world \<Rightarrow> world" where
  "frame_tick w =
     p5_setProperty ''frameCount''
       (JNumber (js_add (to_number (inst_get w ''frameCount'')) (Num 1))) w"

text \<open>\<open>_setup\<close> (lines 220-245).\<close>

text \<open>
  The loop of lines 239-243 runs over the live collection of the elements of class
  \<open>p5_hidden\<close>: removing the class from the element at index \<open>i\<close> takes it out of
  the collection, so the next index skips one element. \<open>unhide\<close> gives the elements
  that are still hidden when the loop ends.
\<close>

fun unhide :: "nat list \<Rightarrow> nat list" where
  "unhide (a # b # cs) = b # unhide cs"
| "unhide cs = []"

definition restore_loaders :: "world \<Rightarrow> world" where
  "restore_loaders w = foldl (\<lambda>w f. ctx_put f (proto_get w f) w) w (preloadFuncs w)"

definition p5_setup :: "world \<Rightarrow> outcome \<times> world" where
  "p5_setup w0 =
     (let w = log SetupPhase w0;
          w1 = (if is_function (ctx_get w ''preload'') then restore_loaders w else w)
      in andThen
           (if is_function (ctx_get w1 ''setup'')
            then call_hook ''setup'' (ctx_get w1 ''setup'') w1 else (Returns, w1))
           (\<lambda>w2. (Returns, w2\<lparr>hidden := unhide (hidden w2), setupDone := True\<rparr>)))"

text \<open>
  \<open>_draw\<close> (lines 247-272). \<open>_drawInterval\<close> is absent (\<open>None\<close>) until the first
  draw tick with the loop flag set; \<open>clear_handle\<close> is the guarded
  \<open>if (h) { clearInterval(h); }\<close>, \<open>measure_frame\<close> lines 249-251, \<open>arm_draw\<close>
  the body of \<open>if (this._loop)\<close>, \<open>scoped_draw\<close> the body of
  \<open>if (typeof userDraw === 'function')\<close>.
\<close>

definition clear_handle :: "nat option \<Rightarrow> world \<Rightarrow> world" where
  "clear_handle h w =
     (case h of None \<Rightarrow> w | Some i \<Rightarrow> if i \<noteq> 0 then clearTimer i w else w)"

definition arm_draw :: "world \<Rightarrow> world" where
  "arm_draw w =
     (let w1 = clear_handle (drawInterval w) w;
          r = setTimer DrawDefer (frameDelay w1) w1
      in (snd r)\<lparr>drawInterval := Some (fst r)\<rparr>)"

definition measure_frame :: "world \<Rightarrow> world" where
  "measure_frame w =
     (let now = Num (of_int (clock w));
          w1 = this_put ''_frameRate''
                 (JNumber (js_div (Num 1000)
                    (js_sub now (to_number (inst_get w ''_lastFrameTime''))))) w
      in this_put ''_lastFrameTime'' (JNumber now) w1)"

definition scoped_draw :: "jsval \<Rightarrow> jsval \<Rightarrow> world \<Rightarrow> outcome \<times> world" where
  "scoped_draw userSetup userDraw w =
     andThen
       (andThen
          (andThen (push w)
             (\<lambda>w1. if userSetup = JUndef then external ''scale'' w1 else (Returns, w1)))
          (call_hook ''draw'' userDraw))
       pop"

definition p5_draw :: "world \<Rightarrow> outcome \<times> world" where
  "p5_draw w =
     (let userSetup = js_or (inst_get w ''setup'') (win_get w ''setup'');
          w2 = measure_frame w;
          userDraw = js_or (inst_get w2 ''draw'') (win_get w2 ''draw'');
          w3 = (if loop w2 then arm_draw w2 else w2)
      in if is_function userDraw then scoped_draw userSetup userDraw w3 else (Returns, w3))"

text \<open>
  \<open>_preload\<close> (lines 207-218). \<open>preload_done\<close> is the completion callback it hands to
  the loader; the loader either calls it before returning (\<open>Sync\<close>) or is left in
  flight (\<open>Async\<close>). In Global mode \<open>context\<close> is the global object, whose
  \<open>_setProperty\<close>, \<open>_setup\<close>, \<open>_runFrames\<close> and \<open>_draw\<close> are the instance's own
  bound methods copied there at construction.
\<close>

definition setup_and_run :: "world \<Rightarrow> outcome \<times> world" where
  "setup_and_run w =
     andThen (andThen (p5_setup w) (\<lambda>w1. (Returns, p5_runFrames w1))) p5_draw"

definition preload_done :: "world \<Rightarrow> outcome \<times> world" where
  "preload_done w =
     (let w1 = p5_setProperty ''_preloadCount''
                 (JNumber (js_sub (to_number (ctx_get w ''_preloadCount'')) (Num 1))) w
      in if ctx_get w1 ''_preloadCount'' = JNumber (Num 0) then setup_and_run w1
         else (Returns, w1))"

definition p5_preload :: "string \<Rightarrow> timing \<Rightarrow> world \<Rightarrow> outcome \<times> world" where
  "p5_preload func t w =
     (let w1 = p5_setProperty ''_preloadCount''
                 (JNumber (js_add (to_number (ctx_get w ''_preloadCount'')) (Num 1))) w
      in if is_function (proto_get w1 func) then
           (let w2 = log (External func) w1
            in case t of
                 Sync \<Rightarrow> preload_done w2
               | Async \<Rightarrow>
                   (Returns, w2\<lparr>loads := loads w2 @ [nextLoad w2], nextLoad := Suc (nextLoad w2)\<rparr>))
         else (Throws, w1))"

text \<open>
  The user preload hook: each of its calls looks the name up on its receiver and calls
  what it finds, the wrapper or the capability itself; a value that is no function
  throws.
\<close>

definition run_call :: "call \<Rightarrow> world \<Rightarrow> outcome \<times> world" where
  "run_call c w =
     (case c of Load r f t \<Rightarrow>
        (let target = (case r of OnWindow \<Rightarrow> win_get w f | OnInstance \<Rightarrow> inst_get w f)
         in case target of
              JWrapper g \<Rightarrow> p5_preload g t w
            | _ \<Rightarrow> if is_function target then external f w else (Throws, w)))"

fun run_calls :: "call list \<Rightarrow> world \<Rightarrow> outcome \<times> world" where
  "run_calls [] w = (Returns, w)"
| "run_calls (c # cs) w = andThen (run_call c w) (run_calls cs)"

definition call_preload :: "jsval \<Rightarrow> world \<Rightarrow> outcome \<times> world" where
  "call_preload f w =
     (case f of
        JUser cs oc \<Rightarrow> andThen (run_calls cs (log (Invoke ''preload'') w)) (\<lambda>w1. (oc, w1))
      | _ \<Rightarrow> if is_function f then (Returns, log (Invoke ''preload'') w) else (Throws, w))"

text \<open>\<open>_start\<close> (lines 169-205).\<close>

definition install_wrappers :: "world \<Rightarrow> world" where
  "install_wrappers w = foldl (\<lambda>w f. ctx_put f (JWrapper f) w) w (preloadFuncs w)"

definition resolve_node :: "world \<Rightarrow> world" where
  "resolve_node w =
     (case userNode w of
        Some (NodeId s) \<Rightarrow>
          if s = [] then w else w\<lparr>userNode := map_option NodeElt (docIds w s)\<rparr>
      | _ \<Rightarrow> w)"

definition p5_start :: "world \<Rightarrow> outcome \<times> world" where
  "p5_start w0 =
     andThen (external ''createCanvas'' (resolve_node w0))
       (\<lambda>w.
          let userPreload = js_or (inst_get w ''preload'') (win_get w ''preload'')
          in if truthy userPreload then
               andThen (call_preload userPreload (install_wrappers w))
                 (\<lambda>w1. if inst_get w1 ''_preloadCount'' = JNumber (Num 0)
                       then setup_and_run w1 else (Returns, w1))
             else setup_and_run w)"

text \<open>
  \<open>remove\<close> (lines 293-339). \<open>ownKeys\<close> are the names \<open>for (var p2 in this)\<close> finds
  with \<open>hasOwnProperty\<close>; a removal hook that is no function throws.
\<close>

definition privateKeys :: "string list" where
  "privateKeys = [''_setupDone'', ''_pixelDensity'', ''_startTime'', ''_userNode'',
     ''_curElement'', ''_elements'', ''_updateInterval'', ''_isGlobal'', ''_loop'', ''styles'',
     ''_defaultCanvasSize'', ''_events'', ''_start'', ''_preload'', ''_setup'', ''_draw'',
     ''_runFrames'', ''_setProperty'', ''remove'']"

definition ownKeys :: "world \<Rightarrow> string list" where
  "ownKeys w =
     privateKeys @ (if drawInterval w = None then [] else [''_drawInterval'']) @ map fst (own w)"

definition remove_element :: "world \<Rightarrow> element \<Rightarrow> world" where
  "remove_element w e =
     (let w1 = (if parent w (elt e) \<noteq> None then w\<lparr>parent := (parent w)(elt e := None)\<rparr> else w)
      in foldl (\<lambda>w (ev, h). elt_removeEventListener (elt e) ev h w) w1 (el_events e))"

definition call_remove_func :: "string \<Rightarrow> world \<Rightarrow> outcome \<times> world" where
  "call_remove_func f w = (if is_function (inst_get w f) then external f w else (Throws, w))"

fun call_remove_funcs :: "string list \<Rightarrow> world \<Rightarrow> outcome \<times> world" where
  "call_remove_funcs [] w = (Returns, w)"
| "call_remove_funcs (f # fs) w = andThen (call_remove_func f w) (call_remove_funcs fs)"

definition unbind_global :: "world \<Rightarrow> world" where
  "unbind_global w =
     (if isGlobal w then
        foldl (\<lambda>w p2. win_delete p2 w)
          (foldl (\<lambda>w p. win_delete p w) w (map fst (proto w))) (ownKeys w)
      else w)"

definition remove :: "world \<Rightarrow> outcome \<times> world" where
  "remove w =
     (if curElement w \<noteq> None then
        (let w1 = w\<lparr>loop := False\<rparr>;
             w2 = clear_handle (drawInterval w1) w1;
             w3 = (if updateInterval w2 \<noteq> 0 then clearTimer (updateInterval w2) w2 else w2);
             w4 = foldl (\<lambda>w (ev, h). removeEventListener ev h w) w3 (events w3);
             w5 = foldl remove_element w4 (elements w4)
         in andThen (call_remove_funcs (removeFuncs w5) w5) (\<lambda>w6. (Returns, unbind_global w6)))
      else (Returns, w))"

text \<open>
  The constructor (lines 35-402). \<open>expose_capabilities\<close> is the loop over
  \<open>p5.prototype\<close> of Global mode (lines 352-361), \<open>expose_own\<close> the loop over the
  instance's own properties (lines 363-367), \<open>bind_events\<close> the subscription loop
  (lines 377-384), \<open>merge_constants\<close> the loop of lines 343-345.
  \<open>reserved_hook\<close> is the test of lines 354-355:
  \<open>this._events.hasOwnProperty(p.substring(2))\<close>. A sketch closure is given by the
  properties it attaches to the instance. The constructor works on the page it is called in: the argument \<open>a\<close>
  supplies the browser fields and the shared tables.
\<close>

definition reserved_hook :: "world \<Rightarrow> string \<Rightarrow> bool" where
  "reserved_hook w p = (map_of (events w) (drop 2 p) \<noteq> None)"

definition expose_capability :: "world \<Rightarrow> string \<times> jsval \<Rightarrow> world" where
  "expose_capability w pv =
     (case pv of (p, v) \<Rightarrow>
        if is_function v then
          (if reserved_hook w p then w else win_put p (JBound v) w)
        else win_put p v w)"






definition bind_event :: "string \<Rightarrow> world \<Rightarrow> outcome \<times> world" where
  "bind_event e w =
     (let f = inst_get w (''on'' @ e)
      in if truthy f then
           (if is_function f then
              (Returns,
               (addEventListener e (JBound f) w)\<lparr>events := AList.update e (JBound f) (events w)\<rparr>)
            else (Throws, w))
         else (Returns, w))"

fun bind_events :: "string list \<Rightarrow> world \<Rightarrow> outcome \<times> world" where
  "bind_events [] w = (Returns, w)"
| "bind_events (e # es) w = andThen (bind_event e w) (bind_events es)"

definition init_instance :: "node option \<Rightarrow> world \<Rightarrow> world" where
  "init_instance nd a =
     a\<lparr>setupDone := False,
       pixelDensity := (if devicePixelRatio a = 0 then 1 else devicePixelRatio a),
       startTime := clock a, userNode := nd, curElement := None, elements := [],
       updateInterval := 0, drawInterval := None, isGlobal := False, loop := True,
       styles := [], events := map (\<lambda>e. (e, JNull)) eventNames,
       own := [(''_preloadCount'', JNumber (Num 0))]\<rparr>"



section \<open>The event loop\<close>

text \<open>
  One event at a time: a timer fires, a queued \<open>requestDraw\<close> callback is delivered, a
  load in flight completes, the clock advances, the page finishes loading, the window
  gains or loses focus. An exception that leaves a callback goes to the browser; the
  state reached stays.
\<close>

datatype event =
    TimerFires nat
  | FrameCallback
  | LoadCompletes nat
  | ClockAdvances nat
  | PageLoads
  | WindowFocus
  | WindowBlur

definition timer_fires :: "nat \<Rightarrow> world \<Rightarrow> world" where
  "timer_fires i w =
     (case map_of (armed w) i of
        None \<Rightarrow> w
      | Some (FrameTick, d) \<Rightarrow> frame_tick w
      | Some (DrawDefer, d) \<Rightarrow>
          w\<lparr>armed := filter (\<lambda>x. fst x \<noteq> i) (armed w), drawRequests := Suc (drawRequests w)\<rparr>)"

fun step :: "event \<Rightarrow> world \<Rightarrow> world" where
  "step (TimerFires i) w = timer_fires i w"
| "step FrameCallback w =
     (if drawRequests w = 0 then w else snd (p5_draw (w\<lparr>drawRequests := drawRequests w - 1\<rparr>)))"
| "step (LoadCompletes k) w =
     (if k \<in> set (loads w) then snd (preload_done (w\<lparr>loads := remove1 k (loads w)\<rparr>)) else w)"
| "step (ClockAdvances d) w = w\<lparr>clock := clock w + int d\<rparr>"
| "step PageLoads w =
     (if (''load'', JBound (JFun ''_start'')) \<in> set (listeners w) then snd (p5_start w) else w)"
| "step WindowFocus w =
     (if (''focus'', JFun ''focus'') \<in> set (listeners w)
      then p5_setProperty ''focused'' (JBool True) w else w)"
| "step WindowBlur w =
     (if (''blur'', JFun ''blur'') \<in> set (listeners w)
      then p5_setProperty ''focused'' (JBool False) w else w)"

definition run :: "event list \<Rightarrow> world \<Rightarrow> world" where
  "run es w = foldl (\<lambda>w e. step e w) w es"

section \<open>A concrete page\<close>

text \<open>
  \<open>page\<close> is a loaded page at time 5000 with the registries as this file initialises
  them (lines 407-416) and a capability table holding the loaders and the defaults this
  file reads; \<open>fresh\<close> is an instance on it before its start routine has run.
\<close>

definition page :: world where
  "page =
     \<lparr>setupDone = False, pixelDensity = 1, startTime = 0, userNode = None, curElement = None,
      elements = [], updateInterval = 0, drawInterval = None, isGlobal = False, loop = True,
      styles = [], events = [], own = [],
      proto = [(''_preloadFuncs'', JObj ''_preloadFuncs''),
               (''_removeFuncs'', JObj ''_removeFuncs''),
               (''_registerPreloadFunc'', JFun ''_registerPreloadFunc''),
               (''_registerRemoveFunc'', JFun ''_registerRemoveFunc''),
               (''loadJSON'', JFun ''loadJSON''), (''loadImage'', JFun ''loadImage''),
               (''loadStrings'', JFun ''loadStrings''), (''loadXML'', JFun ''loadXML''),
               (''loadShape'', JFun ''loadShape''), (''loadTable'', JFun ''loadTable''),
               (''onclick'', JFun ''onclick''), (''rect'', JFun ''rect''),
               (''frameCount'', JNumber (Num 0)), (''_targetFrameRate'', JNumber (Num 60))],
      preloadFuncs = [''loadJSON'', ''loadImage'', ''loadStrings'', ''loadXML'', ''loadShape'',
                      ''loadTable''],
      removeFuncs = [],
      constants = [(''PI'', JNumber (Num (355 / 113))), (''ARROW'', JStr ''default'')],
      win = Map.empty, listeners = [],
      elt_listeners = [], parent = Map.empty, docIds = Map.empty, docReady = True,
      handlerEvents = [''click'', ''mousemove'', ''mousedown'', ''mouseup'', ''keydown'',
                       ''keyup'', ''keypress'', ''load'', ''focus'', ''blur'', ''resize''],
      hidden = [],
      devicePixelRatio = 1, clock = 5000, armed = [], nextTimer = 1, drawRequests = 0,
      loads = [], nextLoad = 0, trace = []\<rparr>"

definition fresh :: world where
  "fresh = init_instance None page"

text \<open>
  Instances used as concrete inputs: \<open>paused\<close> has a draw hook and its loop flag off,
  \<open>thrower\<close> a draw hook that throws, \<open>drawer\<close> one that returns, \<open>ticked\<close> is
  \<open>fresh\<close> 16 ms after its first draw tick.
\<close>

definition paused :: world where
  "paused = this_put ''draw'' (JUser [] Returns) (fresh\<lparr>loop := False\<rparr>)"

definition thrower :: world where
  "thrower = this_put ''draw'' (JUser [] Throws) fresh"

definition drawer :: world where
  "drawer = this_put ''draw'' (JUser [] Returns) fresh"

definition ticked :: world where
  "ticked = step (ClockAdvances 16) (snd (p5_draw fresh))"

text \<open>
  \<open>ticking\<close> is a Global-mode instance with its frame-count ticker running.
  \<open>live\<close> is a Global-mode instance in mid-run: element 0 (child of node 9, with one
  listener of its own) is its primary element, its click hook is subscribed, both timers
  are armed, and the global namespace holds a capability, an own property and the user's
  draw function. \<open>sync_sketch\<close> has a setup hook and a preload hook that
  calls one loader, which completes before it returns; \<open>async_sketch\<close> is the same
  with two loaders that complete later. \<open>bystander\<close> is an instance-mode
  sketch with a setup hook and no preload hook, on a page whose global object has a
  \<open>preload\<close> function calling a global \<open>loadImage\<close> that nothing defines.
\<close>

definition ticking :: world where
  "ticking = p5_runFrames (fresh\<lparr>isGlobal := True\<rparr>)"

definition live :: world where
  "live = fresh
     \<lparr>curElement := Some 0,
      elements := [\<lparr>elt = 0, el_events = [(''mouseover'', JFun ''hover'')]\<rparr>],
      updateInterval := 1, drawInterval := Some 2, isGlobal := True,
      events := [(''click'', JBound (JFun ''onclick'')), (''keydown'', JNull)],
      win := [''rect'' \<mapsto> JBound (JFun ''rect''), ''_loop'' \<mapsto> JBool True,
              ''draw'' \<mapsto> JUser [] Returns],
      listeners := [(''click'', JBound (JFun ''onclick'')), (''focus'', JFun ''focus'')],
      elt_listeners := [(0, ''mouseover'', JFun ''hover'')],
      parent := [0 \<mapsto> 9],
      armed := [(1, FrameTick, Num (50 / 3)), (2, DrawDefer, Num (50 / 3))],
      nextTimer := 3\<rparr>"

definition sync_sketch :: world where
  "sync_sketch =
     this_put ''setup'' (JUser [] Returns)
       (this_put ''preload'' (JUser [Load OnInstance ''loadJSON'' Sync] Returns) fresh)"

definition async_sketch :: world where
  "async_sketch =
     this_put ''setup'' (JUser [] Returns)
       (this_put ''preload''
          (JUser [Load OnInstance ''loadJSON'' Async, Load OnInstance ''loadImage'' Async] Returns)
          fresh)"

definition bystander :: world where
  "bystander =
     this_put ''setup'' (JUser [] Returns)
       (fresh\<lparr>win := [''preload'' \<mapsto> JUser [Load OnWindow ''loadImage'' Async] Returns]\<rparr>)"

text \<open>
  The identifiers of the armed frame-count tickers, and the state in which at most the
  recorded one is armed.
\<close>

definition tickers :: "world \<Rightarrow> nat list" where
  "tickers w = map fst (filter (\<lambda>x. fst (snd x) = FrameTick) (armed w))"

definition one_ticker :: "world \<Rightarrow> bool" where
  "one_ticker w =
     (0 < nextTimer w \<and>
      (tickers w = [] \<or> (tickers w = [updateInterval w] \<and> updateInterval w \<noteq> 0)))"

text \<open>
  For the preload gate: the receiver through which the wrappers are reached, a call of
  the preload hook that goes through a wrapper and completes later, the number of times
  the setup routine has been entered, the state in which both views of the counter hold
  \<open>n\<close>, and the state in which every registered loader name is wrapped.
\<close>

definition ctx_receiver :: "world \<Rightarrow> receiver" where
  "ctx_receiver w = (if isGlobal w then OnWindow else OnInstance)"

definition tracked_async :: "world \<Rightarrow> call \<Rightarrow> bool" where
  "tracked_async w c =
     (case c of Load r f t \<Rightarrow>
        r = ctx_receiver w \<and> t = Async \<and> f \<in> set (preloadFuncs w) \<and> is_function (proto_get w f))"

definition setups :: "world \<Rightarrow> nat" where
  "setups w = count_list (trace w) SetupPhase"

definition gate :: "nat \<Rightarrow> world \<Rightarrow> bool" where
  "gate n w =
     (ctx_get w ''_preloadCount'' = JNumber (Num (of_nat n)) \<and>
      inst_get w ''_preloadCount'' = JNumber (Num (of_nat n)))"

definition wrapped :: "world \<Rightarrow> bool" where
  "wrapped w = (list_all (\<lambda>f. ctx_get w f = JWrapper f) (preloadFuncs w) \<and>
     ''_preloadCount'' \<notin> set (preloadFuncs w))"



definition global_view ::
  "world \<Rightarrow> bool \<times> string list \<times> string list \<times> (string \<rightharpoonup> jsval)" where
  "global_view w =
     (isGlobal w, preloadFuncs w, handlerEvents w,
      (\<lambda>p. if p = ''_preloadCount'' \<or> p \<in> set (preloadFuncs w) then None else win w p))"

section \<open>Basic facts\<close>

lemma own_or_proto_update [simp]:
  "own_or_proto (AList.update k v al) pr k' = (if k' = k then v else own_or_proto al pr k')"
  by (simp add: own_or_proto_def update_conv')

lemma inst_get_this_put [simp]:
  "inst_get (this_put k v w) k' = (if k' = k then v else inst_get w k')"
  by (simp add: inst_get_def this_put_def)

lemma win_get_this_put [simp]: "win_get (this_put k v w) k' = win_get w k'"
  by (simp add: win_get_def this_put_def)

lemma measure_frame_gets [simp]:
  "inst_get (measure_frame w) ''draw'' = inst_get w ''draw''"
  "inst_get (measure_frame w) ''setup'' = inst_get w ''setup''"
  "inst_get (measure_frame w) ''_targetFrameRate'' = inst_get w ''_targetFrameRate''"
  "inst_get (measure_frame w) ''frameCount'' = inst_get w ''frameCount''"
  "win_get (measure_frame w) k = win_get w k"
  by (simp_all add: measure_frame_def Let_def)

lemma measure_frame_fields [simp]:
  "loop (measure_frame w) = loop w"
  "trace (measure_frame w) = trace w"
  "styles (measure_frame w) = styles w"
  "armed (measure_frame w) = armed w"
  "nextTimer (measure_frame w) = nextTimer w"
  "drawInterval (measure_frame w) = drawInterval w"
  "drawRequests (measure_frame w) = drawRequests w"
  "updateInterval (measure_frame w) = updateInterval w"
  "loads (measure_frame w) = loads w"
  "proto (measure_frame w) = proto w"
  "win (measure_frame w) = win w"
  "isGlobal (measure_frame w) = isGlobal w"
  by (simp_all add: measure_frame_def this_put_def Let_def)

lemma frameDelay_measure_frame [simp]: "frameDelay (measure_frame w) = frameDelay w"
  by (simp add: frameDelay_def)

text \<open>The three parts of a draw tick, each as one update of the state.\<close>

lemma scoped_draw_eq:
  "scoped_draw s d w =
     (hook_outcome d,
      w\<lparr>styles := (if hook_outcome d = Returns then styles w else styles w @ [Checkpoint]),
        trace := trace w @ External ''push'' # (if s = JUndef then [External ''scale''] else [])
                   @ Invoke ''draw'' # (if hook_outcome d = Returns then [External ''pop''] else [])\<rparr>)"
  by (cases "hook_outcome d")
    (simp_all add: scoped_draw_def push_def pop_def external_def call_hook_def andThen_def
      log_def)

lemma clear_handle_cases:
  "clear_handle h w = w \<or>
   (\<exists>i. clear_handle h w
          = w\<lparr>armed := filter (\<lambda>x. fst x \<noteq> i) (armed w), trace := trace w @ [TimerClear i]\<rparr>)"
  by (auto simp add: clear_handle_def clearTimer_def log_def split: option.splits)

lemma arm_draw_eq:
  "\<exists>a pre. arm_draw w
      = w\<lparr>armed := a @ [(nextTimer w, DrawDefer, frameDelay w)],
          nextTimer := Suc (nextTimer w),
          trace := trace w @ pre @ [TimerSet (nextTimer w)],
          drawInterval := Some (nextTimer w)\<rparr>
      \<and> set a \<subseteq> set (armed w) \<and> set pre \<subseteq> range TimerClear"
proof -
  from clear_handle_cases [of "drawInterval w" w] show ?thesis
  proof
    assume "clear_handle (drawInterval w) w = w"
    then have "arm_draw w
      = w\<lparr>armed := armed w @ [(nextTimer w, DrawDefer, frameDelay w)],
          nextTimer := Suc (nextTimer w),
          trace := trace w @ [] @ [TimerSet (nextTimer w)],
          drawInterval := Some (nextTimer w)\<rparr>"
      by (simp add: arm_draw_def setTimer_def log_def)
    then show ?thesis by (intro exI [of _ "armed w"] exI [of _ "[]"]) simp
  next
    assume "\<exists>i. clear_handle (drawInterval w) w
          = w\<lparr>armed := filter (\<lambda>x. fst x \<noteq> i) (armed w), trace := trace w @ [TimerClear i]\<rparr>"
    then obtain i where "clear_handle (drawInterval w) w
          = w\<lparr>armed := filter (\<lambda>x. fst x \<noteq> i) (armed w), trace := trace w @ [TimerClear i]\<rparr>"
      by blast
    then have "arm_draw w
      = w\<lparr>armed := filter (\<lambda>x. fst x \<noteq> i) (armed w) @ [(nextTimer w, DrawDefer, frameDelay w)],
          nextTimer := Suc (nextTimer w),
          trace := trace w @ [TimerClear i] @ [TimerSet (nextTimer w)],
          drawInterval := Some (nextTimer w)\<rparr>"
      by (simp add: arm_draw_def setTimer_def log_def frameDelay_def inst_get_def)
    then show ?thesis
      by (intro exI [of _ "filter (\<lambda>x. fst x \<noteq> i) (armed w)"] exI [of _ "[TimerClear i]"]) simp
  qed
qed

lemma p5_draw_paused:
  assumes "\<not> loop w"
  shows "p5_draw w =
     (if is_function (js_or (inst_get w ''draw'') (win_get w ''draw''))
      then scoped_draw (js_or (inst_get w ''setup'') (win_get w ''setup''))
             (js_or (inst_get w ''draw'') (win_get w ''draw'')) (measure_frame w)
      else (Returns, measure_frame w))"
  using assms by (simp add: p5_draw_def Let_def)

lemma p5_draw_looping:
  assumes "loop w"
  shows "p5_draw w =
     (if is_function (js_or (inst_get w ''draw'') (win_get w ''draw''))
      then scoped_draw (js_or (inst_get w ''setup'') (win_get w ''setup''))
             (js_or (inst_get w ''draw'') (win_get w ''draw'')) (arm_draw (measure_frame w))
      else (Returns, arm_draw (measure_frame w)))"
  using assms by (simp add: p5_draw_def Let_def)

lemma arm_draw_measured:
  obtains a pre where
    "arm_draw (measure_frame w)
      = (measure_frame w)\<lparr>armed := a @ [(nextTimer w, DrawDefer, frameDelay w)],
          nextTimer := Suc (nextTimer w),
          trace := trace w @ pre @ [TimerSet (nextTimer w)],
          drawInterval := Some (nextTimer w)\<rparr>"
    and "set a \<subseteq> set (armed w)" and "set pre \<subseteq> range TimerClear"
  using arm_draw_eq [of "measure_frame w"] by auto

lemma own_p5_draw: "own (snd (p5_draw w)) = own (measure_frame w)"
proof (cases "loop w")
  case False
  then show ?thesis by (simp add: p5_draw_paused scoped_draw_eq)
next
  case True
  obtain a pre where "arm_draw (measure_frame w)
      = (measure_frame w)\<lparr>armed := a @ [(nextTimer w, DrawDefer, frameDelay w)],
          nextTimer := Suc (nextTimer w),
          trace := trace w @ pre @ [TimerSet (nextTimer w)],
          drawInterval := Some (nextTimer w)\<rparr>"
    by (rule arm_draw_measured)
  then show ?thesis using True by (simp add: p5_draw_looping scoped_draw_eq)
qed

lemma proto_p5_draw: "proto (snd (p5_draw w)) = proto w"
proof (cases "loop w")
  case False
  then show ?thesis by (simp add: p5_draw_paused scoped_draw_eq)
next
  case True
  obtain a pre where "arm_draw (measure_frame w)
      = (measure_frame w)\<lparr>armed := a @ [(nextTimer w, DrawDefer, frameDelay w)],
          nextTimer := Suc (nextTimer w),
          trace := trace w @ pre @ [TimerSet (nextTimer w)],
          drawInterval := Some (nextTimer w)\<rparr>"
    by (rule arm_draw_measured)
  then show ?thesis using True by (simp add: p5_draw_looping scoped_draw_eq)
qed

lemma inst_get_p5_draw: "inst_get (snd (p5_draw w)) k = inst_get (measure_frame w) k"
  by (simp add: inst_get_def own_p5_draw proto_p5_draw)

lemma gets_frame [simp]:
  "inst_get (w\<lparr>trace := t\<rparr>) k = inst_get w k"
  "win_get (w\<lparr>trace := t\<rparr>) k = win_get w k"
  "ctx_get (w\<lparr>trace := t\<rparr>) k = ctx_get w k"
  "inst_get (w\<lparr>userNode := n\<rparr>) k = inst_get w k"
  "win_get (w\<lparr>userNode := n\<rparr>) k = win_get w k"
  "ctx_get (w\<lparr>userNode := n\<rparr>) k = ctx_get w k"
  by (simp_all add: ctx_get_def win_get_def inst_get_def)

lemma inst_get_setProperty [simp]:
  "inst_get (p5_setProperty k v w) k' = (if k' = k then v else inst_get w k')"
  by (simp add: p5_setProperty_def Let_def win_put_def inst_get_def this_put_def)

lemma stored_plain [simp]:
  "take 2 k \<noteq> ''on'' \<Longrightarrow> stored hs k v = v"
  "is_object v \<Longrightarrow> stored hs k v = v"
  by (simp_all add: stored_def)

lemma is_function_object [simp]: "is_function v \<Longrightarrow> is_object v"
  by (cases v) simp_all

lemma win_get_setProperty [simp]:
  "win_get (p5_setProperty k v w) k'
     = (if isGlobal w \<and> k' = k then stored (handlerEvents w) k v else win_get w k')"
  by (simp add: p5_setProperty_def Let_def win_put_def win_get_def this_put_def)

lemma frame_tick_armed [simp]: "armed (frame_tick w) = armed w"
  by (simp add: frame_tick_def p5_setProperty_def Let_def win_put_def this_put_def)

section \<open>The draw tick\<close>

text \<open>
  Claim C5, as stated, fails: the division of line 250 has no guard. Two draw ticks in
  the same millisecond leave \<open>_frameRate\<close> at \<open>Infinity\<close>, and a first tick with no
  previous timestamp (this file never initialises \<open>_lastFrameTime\<close>) leaves it at
  \<open>NaN\<close>; neither is a finite value.
\<close>

theorem frame_rate_not_guarded:
  "inst_get (snd (p5_draw (snd (p5_draw fresh)))) ''_frameRate'' = JNumber PosInf
   \<and> \<not> js_finite PosInf
   \<and> inst_get fresh ''_lastFrameTime'' = JUndef
   \<and> inst_get (snd (p5_draw fresh)) ''_frameRate'' = JNumber NaN
   \<and> \<not> js_finite NaN"
  by code_simp

text \<open>
  Claim C5, amended: on every draw tick the measured frame rate is computed as 1000
  divided by the wall-clock time elapsed since the previous draw tick, without a guard;
  it is the finite value \<open>1000 / (now - previous)\<close> whenever the previous timestamp is a
  finite number other than \<open>now\<close>.
\<close>

theorem frame_rate_measured:
  assumes "inst_get w ''_lastFrameTime'' = JNumber (Num t)"
    and "t \<noteq> of_int (clock w)"
  shows "inst_get (snd (p5_draw w)) ''_frameRate''
           = JNumber (Num (1000 / (of_int (clock w) - t)))"
  using assms by (simp add: inst_get_p5_draw measure_frame_def Let_def js_sub_def)

theorem frame_rate_measured_witness:
  "inst_get ticked ''_lastFrameTime'' = JNumber (Num 5000)
   \<and> (5000 :: rat) \<noteq> of_int (clock ticked)
   \<and> inst_get (snd (p5_draw ticked)) ''_frameRate'' = JNumber (Num (125 / 2))"
proof -
  have a: "inst_get ticked ''_lastFrameTime'' = JNumber (Num 5000)" by code_simp
  have b: "clock ticked = 5016" by code_simp
  have c: "(5000 :: rat) \<noteq> of_int (clock ticked)" by (simp add: b)
  from frame_rate_measured [OF a c] a c show ?thesis by (simp add: b)
qed

text \<open>
  Claim C3, as stated, fails: \<open>_draw\<close> tests the loop flag only around the re-arming
  (line 255); the call of the user draw hook (lines 264-271) is outside that test. A
  draw tick on an instance whose loop flag is off runs the hook.
\<close>

theorem paused_tick_runs_draw_hook:
  "\<not> loop paused \<and> trace paused = []
   \<and> trace (snd (p5_draw paused))
       = [External ''push'', External ''scale'', Invoke ''draw'', External ''pop'']"
  by code_simp

text \<open>
  Claim C3, amended: a draw tick that fires while the loop flag is false does not re-arm
  the draw driver: it sets no timer and leaves the armed timers, the draw handle and the
  queued draw requests as they were, so that no further tick follows from it. It does
  execute the user draw hook, once, when a draw hook is defined.
\<close>

theorem paused_tick_does_not_rearm:
  assumes "\<not> loop w"
  shows "armed (snd (p5_draw w)) = armed w
     \<and> drawInterval (snd (p5_draw w)) = drawInterval w
     \<and> drawRequests (snd (p5_draw w)) = drawRequests w
     \<and> (\<forall>i. TimerSet i \<notin> set (drop (length (trace w)) (trace (snd (p5_draw w)))))
     \<and> (is_function (js_or (inst_get w ''draw'') (win_get w ''draw'')) \<longrightarrow>
          count_list (trace (snd (p5_draw w))) (Invoke ''draw'')
            = Suc (count_list (trace w) (Invoke ''draw'')))"
  by (simp add: p5_draw_paused [OF assms] scoped_draw_eq)

theorem paused_tick_does_not_rearm_witness:
  "\<not> loop paused
   \<and> is_function (js_or (inst_get paused ''draw'') (win_get paused ''draw''))
   \<and> armed (snd (p5_draw paused)) = armed paused
   \<and> drawInterval (snd (p5_draw paused)) = drawInterval paused
   \<and> count_list (trace (snd (p5_draw paused))) (Invoke ''draw'') = Suc 0"
proof -
  have a: "\<not> loop paused" by code_simp
  have b: "is_function (js_or (inst_get paused ''draw'') (win_get paused ''draw''))"
    by code_simp
  have c: "count_list (trace paused) (Invoke ''draw'') = 0" by code_simp
  from paused_tick_does_not_rearm [OF a] a b c show ?thesis by simp
qed

text \<open>
  Claim C4, as stated, fails: \<open>push\<close>, the hook and \<open>pop\<close> are three statements in a
  row (lines 265-270) with no \<open>try\<close>/\<open>finally\<close>. When the hook throws, \<open>pop\<close> is not
  reached and the pushed scope stays on the style stack.
\<close>

theorem throwing_draw_leaks_scope:
  "styles thrower = [] \<and> fst (p5_draw thrower) = Throws
   \<and> styles (snd (p5_draw thrower)) = [Checkpoint]"
  by code_simp

text \<open>
  Claim C4, amended: for every draw tick in which the user draw hook is invoked, the
  scope pushed before the hook is popped after it when the hook returns, which leaves the
  style stack as it was before the tick; when the hook throws, the pushed scope remains
  on the style stack.
\<close>

theorem draw_scope_popped_on_return:
  assumes "is_function (js_or (inst_get w ''draw'') (win_get w ''draw''))"
  shows "styles (snd (p5_draw w))
           = (if fst (p5_draw w) = Returns then styles w else styles w @ [Checkpoint])"
proof (cases "loop w")
  case False
  then show ?thesis using assms by (simp add: p5_draw_paused scoped_draw_eq)
next
  case True
  obtain a pre where "arm_draw (measure_frame w)
      = (measure_frame w)\<lparr>armed := a @ [(nextTimer w, DrawDefer, frameDelay w)],
          nextTimer := Suc (nextTimer w),
          trace := trace w @ pre @ [TimerSet (nextTimer w)],
          drawInterval := Some (nextTimer w)\<rparr>"
    by (rule arm_draw_measured)
  then show ?thesis using assms True by (simp add: p5_draw_looping scoped_draw_eq)
qed

theorem draw_scope_popped_on_return_witness:
  "is_function (js_or (inst_get drawer ''draw'') (win_get drawer ''draw''))
   \<and> fst (p5_draw drawer) = Returns
   \<and> styles (snd (p5_draw drawer)) = styles drawer"
proof -
  have a: "is_function (js_or (inst_get drawer ''draw'') (win_get drawer ''draw''))"
    by code_simp
  have b: "fst (p5_draw drawer) = Returns" by code_simp
  from draw_scope_popped_on_return [OF a] a b show ?thesis by simp
qed

text \<open>
  Claim C10: in every draw tick executed while the loop flag is true and a draw hook is
  defined, the deferred callback of the next cycle is armed before the user draw hook is
  invoked: the tick records the new handle, the timer is still armed when the tick ends,
  and in the trace the arming precedes the call of the hook. This holds whether the hook
  returns or throws, so an exception of the hook leaves the next frame armed.
\<close>

theorem draw_arms_before_hook:
  assumes "loop w"
    and "is_function (js_or (inst_get w ''draw'') (win_get w ''draw''))"
  shows "drawInterval (snd (p5_draw w)) = Some (nextTimer w)
     \<and> (nextTimer w, DrawDefer, frameDelay w) \<in> set (armed (snd (p5_draw w)))
     \<and> (\<exists>pre post. trace (snd (p5_draw w)) = trace w @ pre @ TimerSet (nextTimer w) # post
            \<and> Invoke ''draw'' \<notin> set pre \<and> Invoke ''draw'' \<in> set post)"
proof -
  let ?s = "js_or (inst_get w ''setup'') (win_get w ''setup'')"
  let ?d = "js_or (inst_get w ''draw'') (win_get w ''draw'')"
  let ?post = "External ''push'' # (if ?s = JUndef then [External ''scale''] else [])
                 @ Invoke ''draw'' # (if hook_outcome ?d = Returns then [External ''pop''] else [])"
  obtain a pre where eq: "arm_draw (measure_frame w)
      = (measure_frame w)\<lparr>armed := a @ [(nextTimer w, DrawDefer, frameDelay w)],
          nextTimer := Suc (nextTimer w),
          trace := trace w @ pre @ [TimerSet (nextTimer w)],
          drawInterval := Some (nextTimer w)\<rparr>"
    and pre: "set pre \<subseteq> range TimerClear"
    by (rule arm_draw_measured)
  from pre have npre: "Invoke ''draw'' \<notin> set pre" by auto
  have "trace (snd (p5_draw w)) = trace w @ pre @ TimerSet (nextTimer w) # ?post"
    using assms by (simp add: p5_draw_looping scoped_draw_eq eq)
  with npre have "\<exists>pre post. trace (snd (p5_draw w)) = trace w @ pre @ TimerSet (nextTimer w) # post
            \<and> Invoke ''draw'' \<notin> set pre \<and> Invoke ''draw'' \<in> set post"
    by (intro exI [of _ pre] exI [of _ ?post]) simp
  moreover have "drawInterval (snd (p5_draw w)) = Some (nextTimer w)"
    using assms by (simp add: p5_draw_looping scoped_draw_eq eq)
  moreover have "(nextTimer w, DrawDefer, frameDelay w) \<in> set (armed (snd (p5_draw w)))"
    using assms by (simp add: p5_draw_looping scoped_draw_eq eq)
  ultimately show ?thesis by blast
qed

theorem draw_arms_before_hook_witness:
  "loop thrower
   \<and> is_function (js_or (inst_get thrower ''draw'') (win_get thrower ''draw''))
   \<and> fst (p5_draw thrower) = Throws
   \<and> drawInterval (snd (p5_draw thrower)) = Some 1
   \<and> (1, DrawDefer, Num (50 / 3)) \<in> set (armed (snd (p5_draw thrower)))"
proof -
  have a: "loop thrower" by code_simp
  have b: "is_function (js_or (inst_get thrower ''draw'') (win_get thrower ''draw''))"
    by code_simp
  have c: "fst (p5_draw thrower) = Throws" by code_simp
  have d: "nextTimer thrower = 1" by code_simp
  have e: "frameDelay thrower = Num (50 / 3)" by code_simp
  from draw_arms_before_hook [OF a b] a b c show ?thesis by (simp add: d e)
qed

section \<open>The frame-count ticker\<close>

lemma tickers_clearTimer: "tickers (clearTimer i w) = filter (\<lambda>j. j \<noteq> i) (tickers w)"
proof -
  have "map fst (filter (\<lambda>x. fst (snd x) = FrameTick) (filter (\<lambda>x. fst x \<noteq> i) xs))
      = filter (\<lambda>j. j \<noteq> i) (map fst (filter (\<lambda>x. fst (snd x) = FrameTick) xs))"
    for xs :: "(nat \<times> task \<times> jsnum) list"
    by (induction xs) auto
  then show ?thesis by (simp add: tickers_def clearTimer_def log_def)
qed

lemma p5_runFrames_eq:
  "p5_runFrames w =
     (let w1 = (if updateInterval w \<noteq> 0 then clearTimer (updateInterval w) w else w)
      in w1\<lparr>armed := armed w1 @ [(nextTimer w, FrameTick, frameDelay w)],
            nextTimer := Suc (nextTimer w),
            trace := trace w1 @ [TimerSet (nextTimer w)],
            updateInterval := nextTimer w\<rparr>)"
  by (simp add: p5_runFrames_def setTimer_def clearTimer_def log_def Let_def frameDelay_def
      inst_get_def)

lemma tickers_runFrames:
  assumes "one_ticker w"
  shows "tickers (p5_runFrames w) = [nextTimer w]"
proof (cases "updateInterval w = 0")
  case True
  with assms have "tickers w = []" by (simp add: one_ticker_def)
  with True show ?thesis by (simp add: p5_runFrames_eq tickers_def)
next
  case False
  from assms have "filter (\<lambda>j. j \<noteq> updateInterval w) (tickers w) = []"
    by (auto simp add: one_ticker_def)
  then have "tickers (clearTimer (updateInterval w) w) = []"
    by (simp add: tickers_clearTimer)
  with False show ?thesis by (simp add: p5_runFrames_eq tickers_def Let_def)
qed

text \<open>
  Claim C7: a firing of the armed frame-count ticker adds exactly one to \<open>frameCount\<close>
  through \<open>_setProperty\<close>, so that in Global mode the global \<open>frameCount\<close> holds the
  same new value after the same step, and the ticker stays armed. A draw tick, whatever
  the clock reads when it runs, leaves \<open>frameCount\<close> as it is: the model has no other
  notion of how long a draw takes. \<open>_runFrames\<close> cancels the recorded ticker before it
  arms the new one: when at most the recorded ticker was armed, exactly the new one is
  armed afterwards, and it is the recorded one.
\<close>

theorem frame_ticker_counts_by_one:
  assumes "inst_get w ''frameCount'' = JNumber (Num n)"
    and "map_of (armed w) i = Some (FrameTick, d)"
    and "one_ticker w"
  shows "inst_get (step (TimerFires i) w) ''frameCount'' = JNumber (Num (n + 1))
     \<and> (isGlobal w \<longrightarrow> win_get (step (TimerFires i) w) ''frameCount'' = JNumber (Num (n + 1)))
     \<and> armed (step (TimerFires i) w) = armed w
     \<and> (\<forall>c. inst_get (snd (p5_draw (w\<lparr>clock := c\<rparr>))) ''frameCount'' = JNumber (Num n))
     \<and> tickers (p5_runFrames w) = [nextTimer w]
     \<and> updateInterval (p5_runFrames w) = nextTimer w
     \<and> one_ticker (p5_runFrames w)
     \<and> (updateInterval w \<noteq> 0 \<longrightarrow>
          trace (p5_runFrames w) = trace w @ [TimerClear (updateInterval w), TimerSet (nextTimer w)])"
proof -
  have tick: "step (TimerFires i) w = frame_tick w"
    using assms(2) by (simp add: timer_fires_def)
  have a: "inst_get (frame_tick w) ''frameCount'' = JNumber (Num (n + 1))"
    using assms(1) by (simp add: frame_tick_def)
  have b: "isGlobal w \<longrightarrow> win_get (frame_tick w) ''frameCount'' = JNumber (Num (n + 1))"
    using assms(1) by (simp add: frame_tick_def)
  have c: "inst_get (snd (p5_draw (w\<lparr>clock := c\<rparr>))) ''frameCount'' = JNumber (Num n)" for c
    using assms(1) by (simp add: inst_get_p5_draw) (simp add: inst_get_def)
  have d: "tickers (p5_runFrames w) = [nextTimer w]"
    by (rule tickers_runFrames [OF assms(3)])
  have e: "updateInterval (p5_runFrames w) = nextTimer w"
    by (simp add: p5_runFrames_eq Let_def)
  have f: "nextTimer (p5_runFrames w) = Suc (nextTimer w)"
    by (simp add: p5_runFrames_eq Let_def)
  have g: "one_ticker (p5_runFrames w)"
    using assms(3) d e f by (simp add: one_ticker_def)
  have h: "updateInterval w \<noteq> 0 \<longrightarrow>
          trace (p5_runFrames w) = trace w @ [TimerClear (updateInterval w), TimerSet (nextTimer w)]"
    by (simp add: p5_runFrames_eq Let_def clearTimer_def log_def)
  from tick a b c d e g h show ?thesis by simp
qed

theorem frame_ticker_counts_by_one_witness:
  "inst_get ticking ''frameCount'' = JNumber (Num 0)
   \<and> map_of (armed ticking) 1 = Some (FrameTick, Num (50 / 3))
   \<and> one_ticker ticking \<and> isGlobal ticking \<and> updateInterval ticking \<noteq> 0
   \<and> inst_get (step (TimerFires 1) ticking) ''frameCount'' = JNumber (Num 1)
   \<and> win_get (step (TimerFires 1) ticking) ''frameCount'' = JNumber (Num 1)
   \<and> tickers (p5_runFrames ticking) = [2]
   \<and> trace (p5_runFrames ticking) = [TimerSet 1, TimerClear 1, TimerSet 2]"
proof -
  have a: "inst_get ticking ''frameCount'' = JNumber (Num 0)" by code_simp
  have b: "map_of (armed ticking) 1 = Some (FrameTick, Num (50 / 3))" by code_simp
  have c: "one_ticker ticking" by code_simp
  have d: "isGlobal ticking" by code_simp
  have e: "updateInterval ticking = 1" by code_simp
  have f: "nextTimer ticking = 2" by code_simp
  have g: "trace ticking = [TimerSet 1]" by code_simp
  from frame_ticker_counts_by_one [OF a b c] a b c d show ?thesis by (simp add: e f g)
qed

section \<open>Teardown\<close>

lemma call_remove_funcs_eq:
  "call_remove_funcs fs w = (Returns, w') \<Longrightarrow> w' = w\<lparr>trace := trace w @ map External fs\<rparr>"
proof (induction fs arbitrary: w)
  case Nil
  then show ?case by simp
next
  case (Cons f fs)
  from Cons.prems have "call_remove_funcs fs (log (External f) w) = (Returns, w')"
    by (simp add: call_remove_func_def external_def andThen_def split: if_splits)
  from Cons.IH [OF this] show ?case by (simp add: log_def)
qed

lemma unsubscribe_all_eq:
  "foldl (\<lambda>w (ev, h). removeEventListener ev h w) w evs
     = w\<lparr>listeners := filter (\<lambda>x. \<not> (x \<in> set evs \<and> snd x \<noteq> JNull \<and> snd x \<noteq> JUndef)) (listeners w)\<rparr>"
proof (induction evs arbitrary: w)
  case Nil
  then show ?case by simp
next
  case (Cons a evs)
  obtain ev h where a: "a = (ev, h)" by (cases a)
  let ?P = "\<lambda>x. \<not> (x \<in> set evs \<and> snd x \<noteq> JNull \<and> snd x \<noteq> JUndef)"
  let ?Q = "\<lambda>x. \<not> (x \<in> set (a # evs) \<and> snd x \<noteq> JNull \<and> snd x \<noteq> JUndef)"
  have f: "filter ?P (listeners (removeEventListener ev h w)) = filter ?Q (listeners w)"
  proof (cases "h = JNull \<or> h = JUndef")
    case True
    then have "filter ?P xs = filter ?Q xs" for xs :: "(string \<times> jsval) list"
      by (induction xs) (auto simp add: a)
    with True show ?thesis by (simp add: removeEventListener_def)
  next
    case False
    then have "filter ?P (removeAll (ev, h) xs) = filter ?Q xs" for xs
      by (induction xs) (auto simp add: a)
    with False show ?thesis by (simp add: removeEventListener_def)
  qed
  have "foldl (\<lambda>w (ev, h). removeEventListener ev h w) w (a # evs)
      = foldl (\<lambda>w (ev, h). removeEventListener ev h w) (removeEventListener ev h w) evs"
    by (simp add: a)
  also have "\<dots> = (removeEventListener ev h w)
      \<lparr>listeners := filter ?P (listeners (removeEventListener ev h w))\<rparr>"
    by (rule Cons.IH)
  also have "\<dots> = w\<lparr>listeners := filter ?Q (listeners w)\<rparr>"
    by (simp only: f) (simp add: removeEventListener_def)
  finally show ?case .
qed

lemma elt_unsubscribe_all_eq:
  "foldl (\<lambda>w (ev, h). elt_removeEventListener n ev h w) w evs
     = w\<lparr>elt_listeners :=
           filter (\<lambda>x. \<not> (fst x = n \<and> snd x \<in> set evs \<and> snd (snd x) \<noteq> JNull \<and> snd (snd x) \<noteq> JUndef))
             (elt_listeners w)\<rparr>"
proof (induction evs arbitrary: w)
  case Nil
  then show ?case by simp
next
  case (Cons a evs)
  obtain ev h where a: "a = (ev, h)" by (cases a)
  let ?P = "\<lambda>x. \<not> (fst x = n \<and> snd x \<in> set evs \<and> snd (snd x) \<noteq> JNull \<and> snd (snd x) \<noteq> JUndef)"
  let ?Q = "\<lambda>x. \<not> (fst x = n \<and> snd x \<in> set (a # evs) \<and> snd (snd x) \<noteq> JNull \<and> snd (snd x) \<noteq> JUndef)"
  have f: "filter ?P (elt_listeners (elt_removeEventListener n ev h w))
      = filter ?Q (elt_listeners w)"
  proof (cases "h = JNull \<or> h = JUndef")
    case True
    then have "filter ?P xs = filter ?Q xs" for xs :: "(nat \<times> string \<times> jsval) list"
      by (induction xs) (auto simp add: a)
    with True show ?thesis by (simp add: elt_removeEventListener_def)
  next
    case False
    then have "filter ?P (removeAll (n, ev, h) xs) = filter ?Q xs" for xs
      by (induction xs) (auto simp add: a)
    with False show ?thesis by (simp add: elt_removeEventListener_def)
  qed
  have "foldl (\<lambda>w (ev, h). elt_removeEventListener n ev h w) w (a # evs)
      = foldl (\<lambda>w (ev, h). elt_removeEventListener n ev h w)
          (elt_removeEventListener n ev h w) evs"
    by (simp add: a)
  also have "\<dots> = (elt_removeEventListener n ev h w)
      \<lparr>elt_listeners := filter ?P (elt_listeners (elt_removeEventListener n ev h w))\<rparr>"
    by (rule Cons.IH)
  also have "\<dots> = w\<lparr>elt_listeners := filter ?Q (elt_listeners w)\<rparr>"
    by (simp only: f) (simp add: elt_removeEventListener_def)
  finally show ?case .
qed

lemma remove_element_eq:
  "remove_element w e
     = w\<lparr>parent := (parent w)(elt e := None),
         elt_listeners :=
           filter (\<lambda>x. \<not> (fst x = elt e \<and> snd x \<in> set (el_events e) \<and> snd (snd x) \<noteq> JNull \<and> snd (snd x) \<noteq> JUndef))
             (elt_listeners w)\<rparr>"
proof -
  have "(if parent w (elt e) \<noteq> None then w\<lparr>parent := (parent w)(elt e := None)\<rparr> else w)
      = w\<lparr>parent := (parent w)(elt e := None)\<rparr>"
    by (cases "parent w (elt e)") (simp_all add: fun_upd_idem)
  then show ?thesis by (simp add: remove_element_def elt_unsubscribe_all_eq)
qed

lemma remove_elements_eq:
  "foldl remove_element w es
     = w\<lparr>parent := (\<lambda>n. if n \<in> elt ` set es then None else parent w n),
         elt_listeners :=
           filter (\<lambda>x. \<not> (\<exists>e \<in> set es. fst x = elt e \<and> snd x \<in> set (el_events e) \<and> snd (snd x) \<noteq> JNull \<and> snd (snd x) \<noteq> JUndef))
             (elt_listeners w)\<rparr>"
proof (induction es arbitrary: w)
  case Nil
  then show ?case by simp
next
  case (Cons e es)
  let ?R = "\<lambda>es x. \<not> (\<exists>e \<in> set es. fst x = elt e \<and> snd x \<in> set (el_events e) \<and> snd (snd x) \<noteq> JNull \<and> snd (snd x) \<noteq> JUndef)"
  have p: "(\<lambda>n. if n \<in> elt ` set es then None else parent (remove_element w e) n)
      = (\<lambda>n. if n \<in> elt ` set (e # es) then None else parent w n)"
    by (auto simp add: remove_element_eq)
  have "filter (?R es) (filter (?R [e]) xs) = filter (?R (e # es)) xs"
    for xs :: "(nat \<times> string \<times> jsval) list"
    by (induction xs) auto
  then have l: "filter (?R es) (elt_listeners (remove_element w e))
      = filter (?R (e # es)) (elt_listeners w)"
    by (simp add: remove_element_eq)
  have "foldl remove_element w (e # es) = foldl remove_element (remove_element w e) es"
    by simp
  also have "\<dots> = (remove_element w e)
      \<lparr>parent := (\<lambda>n. if n \<in> elt ` set es then None else parent (remove_element w e) n),
       elt_listeners := filter (?R es) (elt_listeners (remove_element w e))\<rparr>"
    by (rule Cons.IH)
  also have "\<dots> = w\<lparr>parent := (\<lambda>n. if n \<in> elt ` set (e # es) then None else parent w n),
       elt_listeners := filter (?R (e # es)) (elt_listeners w)\<rparr>"
    by (simp only: p l) (simp add: remove_element_eq)
  finally show ?case .
qed

lemma win_deletes_eq:
  "foldl (\<lambda>w p. win_delete p w) w ps = w\<lparr>win := (\<lambda>k. if k \<in> set ps then None else win w k)\<rparr>"
proof (induction ps arbitrary: w)
  case Nil
  then show ?case by simp
next
  case (Cons p ps)
  have e: "(\<lambda>k. if k \<in> set ps then None else ((win w)(p := None)) k)
      = (\<lambda>k. if k \<in> set (p # ps) then None else win w k)"
    by auto
  have wd: "win (win_delete p w) = (win w)(p := None)"
    by (simp add: win_delete_def)
  have "foldl (\<lambda>w p. win_delete p w) w (p # ps) = foldl (\<lambda>w p. win_delete p w) (win_delete p w) ps"
    by simp
  also have "\<dots> = (win_delete p w)\<lparr>win := (\<lambda>k. if k \<in> set ps then None else win (win_delete p w) k)\<rparr>"
    by (rule Cons.IH)
  also have "\<dots> = w\<lparr>win := (\<lambda>k. if k \<in> set ps then None else ((win w)(p := None)) k)\<rparr>"
    by (simp only: wd) (simp add: win_delete_def)
  also have "\<dots> = w\<lparr>win := (\<lambda>k. if k \<in> set (p # ps) then None else win w k)\<rparr>"
    by (simp only: e)
  finally show ?case .
qed

lemma ownKeys_win [simp]: "ownKeys (w\<lparr>win := f\<rparr>) = ownKeys w"
  by (simp add: ownKeys_def)

lemma unbind_global_eq:
  "unbind_global w =
     (if isGlobal w
      then w\<lparr>win := (\<lambda>k. if k \<in> fst ` set (proto w) \<or> k \<in> set (ownKeys w) then None else win w k)\<rparr>
      else w)"
proof (cases "isGlobal w")
  case False
  then show ?thesis by (simp add: unbind_global_def)
next
  case True
  have "unbind_global w
      = w\<lparr>win := (\<lambda>k. if k \<in> set (ownKeys w) then None
                     else if k \<in> set (map fst (proto w)) then None else win w k)\<rparr>"
    using True by (simp add: unbind_global_def win_deletes_eq cong: if_cong)
  moreover have "(\<lambda>k. if k \<in> set (ownKeys w) then None
                     else if k \<in> set (map fst (proto w)) then None else win w k)
      = (\<lambda>k. if k \<in> fst ` set (proto w) \<or> k \<in> set (ownKeys w) then None else win w k)"
    by auto
  ultimately show ?thesis using True by simp
qed

text \<open>
  Claim C9: \<open>remove\<close> on an instance with no active primary element returns the state it
  was given: no timer is cancelled, no listener removed, no element detached, no
  removal hook called and no global name deleted, and the trace records nothing.
\<close>

theorem remove_without_element_is_noop:
  assumes "curElement w = None"
  shows "remove w = (Returns, w)"
  using assms by (simp add: remove_def)

theorem remove_without_element_is_noop_witness:
  "curElement fresh = None \<and> remove fresh = (Returns, fresh)"
proof -
  have a: "curElement fresh = None" by (simp add: fresh_def init_instance_def)
  from remove_without_element_is_noop [OF a] a show ?thesis by simp
qed

text \<open>
  Claim C2: after \<open>remove\<close> has returned on an instance with an active primary
  element, no handler recorded in the event-subscription map is subscribed to the
  window, every element of the elements list has no parent and none of its recorded
  handlers is subscribed to it, and in Global mode the global namespace holds no
  capability name of the table and no own property name of the instance.
\<close>

theorem remove_unwinds:
  assumes "curElement w \<noteq> None" and "fst (remove w) = Returns"
  shows "(\<forall>(ev, h) \<in> set (events w). is_function h \<longrightarrow> (ev, h) \<notin> set (listeners (snd (remove w))))
     \<and> (\<forall>e \<in> set (elements w).
           parent (snd (remove w)) (elt e) = None
           \<and> (\<forall>(ev, h) \<in> set (el_events e). is_function h \<longrightarrow>
                 (elt e, ev, h) \<notin> set (elt_listeners (snd (remove w)))))
     \<and> (isGlobal w \<longrightarrow>
           (\<forall>p \<in> fst ` set (proto w). win (snd (remove w)) p = None)
           \<and> (\<forall>p \<in> set (ownKeys w). win (snd (remove w)) p = None))"
proof -
  define w3 where "w3 = (let w1 = w\<lparr>loop := False\<rparr>; w2 = clear_handle (drawInterval w1) w1
      in if updateInterval w2 \<noteq> 0 then clearTimer (updateInterval w2) w2 else w2)"
  define w5 where "w5 = foldl remove_element
      (foldl (\<lambda>w (ev, h). removeEventListener ev h w) w3 (events w3)) (elements w3)"
  have "\<exists>a t. w3 = w\<lparr>loop := False, armed := a, trace := t\<rparr>"
  proof -
    obtain a t where c: "clear_handle (drawInterval w) (w\<lparr>loop := False\<rparr>)
        = w\<lparr>loop := False, armed := a, trace := t\<rparr>"
    proof -
      from clear_handle_cases [of "drawInterval w" "w\<lparr>loop := False\<rparr>"]
      have "\<exists>a t. clear_handle (drawInterval w) (w\<lparr>loop := False\<rparr>)
          = w\<lparr>loop := False, armed := a, trace := t\<rparr>"
      proof
        assume "clear_handle (drawInterval w) (w\<lparr>loop := False\<rparr>) = w\<lparr>loop := False\<rparr>"
        then show ?thesis by (intro exI [of _ "armed w"] exI [of _ "trace w"]) simp
      next
        assume "\<exists>i. clear_handle (drawInterval w) (w\<lparr>loop := False\<rparr>)
          = w\<lparr>loop := False\<rparr>\<lparr>armed := filter (\<lambda>x. fst x \<noteq> i) (armed (w\<lparr>loop := False\<rparr>)),
               trace := trace (w\<lparr>loop := False\<rparr>) @ [TimerClear i]\<rparr>"
        then obtain i where "clear_handle (drawInterval w) (w\<lparr>loop := False\<rparr>)
          = w\<lparr>loop := False\<rparr>\<lparr>armed := filter (\<lambda>x. fst x \<noteq> i) (armed (w\<lparr>loop := False\<rparr>)),
               trace := trace (w\<lparr>loop := False\<rparr>) @ [TimerClear i]\<rparr>"
          by blast
        then show ?thesis
          by (intro exI [of _ "filter (\<lambda>x. fst x \<noteq> i) (armed w)"]
              exI [of _ "trace w @ [TimerClear i]"]) simp
      qed
      with that show ?thesis by blast
    qed
    show ?thesis
    proof (cases "updateInterval w = 0")
      case True
      with c have "w3 = w\<lparr>loop := False, armed := a, trace := t\<rparr>"
        by (simp add: w3_def Let_def)
      then show ?thesis by blast
    next
      case False
      with c have "w3 = w\<lparr>loop := False, armed := filter (\<lambda>x. fst x \<noteq> updateInterval w) a,
          trace := t @ [TimerClear (updateInterval w)]\<rparr>"
        by (simp add: w3_def Let_def clearTimer_def log_def)
      then show ?thesis by blast
    qed
  qed
  then obtain a t where w3: "w3 = w\<lparr>loop := False, armed := a, trace := t\<rparr>" by blast
  have same: "events w3 = events w" "elements w3 = elements w" "listeners w3 = listeners w"
    "parent w3 = parent w" "elt_listeners w3 = elt_listeners w" "isGlobal w3 = isGlobal w"
    "proto w3 = proto w" "win w3 = win w" "ownKeys w3 = ownKeys w" "removeFuncs w3 = removeFuncs w"
    "drawInterval w3 = drawInterval w" "own w3 = own w"
    unfolding w3 by (simp_all add: ownKeys_def)
  have r: "remove w = andThen (call_remove_funcs (removeFuncs w5) w5) (\<lambda>w6. (Returns, unbind_global w6))"
    using assms(1) by (simp add: remove_def w5_def w3_def Let_def unsubscribe_all_eq remove_elements_eq)
  from assms(2) r obtain w6 where c: "call_remove_funcs (removeFuncs w5) w5 = (Returns, w6)"
    and res: "snd (remove w) = unbind_global w6"
    by (cases "call_remove_funcs (removeFuncs w5) w5") (auto simp add: andThen_def split: outcome.splits)
  from call_remove_funcs_eq [OF c] have w6: "w6 = w5\<lparr>trace := trace w5 @ map External (removeFuncs w5)\<rparr>" .
  have l: "listeners (snd (remove w))
      = filter (\<lambda>x. \<not> (x \<in> set (events w) \<and> snd x \<noteq> JNull \<and> snd x \<noteq> JUndef)) (listeners w)"
    by (simp add: res w6 unbind_global_eq w5_def unsubscribe_all_eq remove_elements_eq same
        cong: if_cong)
  have p: "parent (snd (remove w)) = (\<lambda>n. if n \<in> elt ` set (elements w) then None else parent w n)"
    by (simp add: res w6 unbind_global_eq w5_def unsubscribe_all_eq remove_elements_eq same
        cong: if_cong)
  have el: "elt_listeners (snd (remove w))
      = filter (\<lambda>x. \<not> (\<exists>e \<in> set (elements w). fst x = elt e \<and> snd x \<in> set (el_events e) \<and> snd (snd x) \<noteq> JNull \<and> snd (snd x) \<noteq> JUndef))
             (elt_listeners w)"
    by (simp add: res w6 unbind_global_eq w5_def unsubscribe_all_eq remove_elements_eq same
        cong: if_cong)
  have ok6: "ownKeys w6 = ownKeys w" "proto w6 = proto w" "isGlobal w6 = isGlobal w" "win w6 = win w"
    by (simp_all add: w6 w5_def unsubscribe_all_eq remove_elements_eq same ownKeys_def)
  have g: "isGlobal w \<Longrightarrow> win (snd (remove w))
      = (\<lambda>k. if k \<in> fst ` set (proto w) \<or> k \<in> set (ownKeys w) then None else win w k)"
    by (simp add: res unbind_global_eq ok6 cong: if_cong)
  have nf: "is_function h \<Longrightarrow> h \<noteq> JNull \<and> h \<noteq> JUndef" for h by (cases h) simp_all
  show ?thesis
  proof (intro conjI)
    show "\<forall>(ev, h) \<in> set (events w). is_function h \<longrightarrow> (ev, h) \<notin> set (listeners (snd (remove w)))"
      using nf by (auto simp add: l)
    show "\<forall>e \<in> set (elements w).
           parent (snd (remove w)) (elt e) = None
           \<and> (\<forall>(ev, h) \<in> set (el_events e). is_function h \<longrightarrow>
                 (elt e, ev, h) \<notin> set (elt_listeners (snd (remove w))))"
      using nf by (auto simp add: p el)
    show "isGlobal w \<longrightarrow>
           (\<forall>p \<in> fst ` set (proto w). win (snd (remove w)) p = None)
           \<and> (\<forall>p \<in> set (ownKeys w). win (snd (remove w)) p = None)"
      using g by auto
  qed
qed

theorem remove_unwinds_witness:
  "curElement live \<noteq> None \<and> fst (remove live) = Returns \<and> isGlobal live
   \<and> (''click'', JBound (JFun ''onclick'')) \<in> set (listeners live)
   \<and> (''click'', JBound (JFun ''onclick'')) \<notin> set (listeners (snd (remove live)))
   \<and> parent live 0 = Some 9
   \<and> parent (snd (remove live)) 0 = None
   \<and> (0, ''mouseover'', JFun ''hover'') \<in> set (elt_listeners live)
   \<and> (0, ''mouseover'', JFun ''hover'') \<notin> set (elt_listeners (snd (remove live)))
   \<and> win live ''rect'' = Some (JBound (JFun ''rect''))
   \<and> win (snd (remove live)) ''rect'' = None
   \<and> win live ''_loop'' = Some (JBool True)
   \<and> win (snd (remove live)) ''_loop'' = None"
proof -
  have a: "curElement live \<noteq> None" by code_simp
  have b: "fst (remove live) = Returns" by code_simp
  have g: "isGlobal live" by code_simp
  have e: "(''click'', JBound (JFun ''onclick'')) \<in> set (events live)" by code_simp
  have l: "(''click'', JBound (JFun ''onclick'')) \<in> set (listeners live)" by code_simp
  have el: "elements live = [\<lparr>elt = 0, el_events = [(''mouseover'', JFun ''hover'')]\<rparr>]"
    by code_simp
  have p: "parent live 0 = Some 9" by code_simp
  have h: "(0, ''mouseover'', JFun ''hover'') \<in> set (elt_listeners live)" by code_simp
  have r: "''rect'' \<in> fst ` set (proto live)" by code_simp
  have o: "''_loop'' \<in> set (ownKeys live)" by code_simp
  have wr: "win live ''rect'' = Some (JBound (JFun ''rect''))" by code_simp
  have wl: "win live ''_loop'' = Some (JBool True)" by code_simp
  note c = remove_unwinds [OF a b]
  from c e have 1: "(''click'', JBound (JFun ''onclick'')) \<notin> set (listeners (snd (remove live)))"
    by fastforce
  from c have 2: "parent (snd (remove live)) 0 = None"
    by (simp add: el)
  from c have 3: "(0, ''mouseover'', JFun ''hover'') \<notin> set (elt_listeners (snd (remove live)))"
    by (simp add: el)
  from c g r have 4: "win (snd (remove live)) ''rect'' = None" by blast
  from c g o have 5: "win (snd (remove live)) ''_loop'' = None" by blast
  from a b g l p h wr wl 1 2 3 4 5 show ?thesis by simp
qed

section \<open>Start and the preload gate\<close>

lemma p5_runFrames_trace:
  "\<exists>ts. trace (p5_runFrames w) = trace w @ ts \<and> SetupPhase \<notin> set ts \<and> Invoke ''setup'' \<notin> set ts"
  by (simp add: p5_runFrames_eq Let_def clearTimer_def log_def)

lemma p5_runFrames_fields [simp]:
  "loads (p5_runFrames w) = loads w"
  "own (p5_runFrames w) = own w"
  "proto (p5_runFrames w) = proto w"
  "win (p5_runFrames w) = win w"
  "isGlobal (p5_runFrames w) = isGlobal w"
  by (simp_all add: p5_runFrames_eq Let_def clearTimer_def log_def)

lemma p5_draw_trace:
  "\<exists>ts. trace (snd (p5_draw w)) = trace w @ ts \<and> SetupPhase \<notin> set ts \<and> Invoke ''setup'' \<notin> set ts"
proof (cases "loop w")
  case False
  then show ?thesis by (simp add: p5_draw_paused scoped_draw_eq)
next
  case True
  obtain a pre where eq: "arm_draw (measure_frame w)
      = (measure_frame w)\<lparr>armed := a @ [(nextTimer w, DrawDefer, frameDelay w)],
          nextTimer := Suc (nextTimer w),
          trace := trace w @ pre @ [TimerSet (nextTimer w)],
          drawInterval := Some (nextTimer w)\<rparr>"
    and pre: "set pre \<subseteq> range TimerClear"
    by (rule arm_draw_measured)
  from pre have "SetupPhase \<notin> set pre" "Invoke ''setup'' \<notin> set pre" by auto
  then show ?thesis using True by (simp add: p5_draw_looping scoped_draw_eq eq)
qed

lemma loads_p5_draw [simp]: "loads (snd (p5_draw w)) = loads w"
proof (cases "loop w")
  case False
  then show ?thesis by (simp add: p5_draw_paused scoped_draw_eq)
next
  case True
  obtain a pre where eq: "arm_draw (measure_frame w)
      = (measure_frame w)\<lparr>armed := a @ [(nextTimer w, DrawDefer, frameDelay w)],
          nextTimer := Suc (nextTimer w),
          trace := trace w @ pre @ [TimerSet (nextTimer w)],
          drawInterval := Some (nextTimer w)\<rparr>"
    by (rule arm_draw_measured)
  then show ?thesis using True by (simp add: p5_draw_looping scoped_draw_eq)
qed

lemma not_truthy_not_function: "\<not> truthy v \<Longrightarrow> \<not> is_function v"
  by (cases v) simp_all
lemma p5_setup_throws:
  assumes "\<not> is_function (ctx_get w ''preload'')"
    and "is_function (ctx_get w ''setup'')" and "hook_outcome (ctx_get w ''setup'') = Throws"
  shows "p5_setup w = (Throws, w\<lparr>trace := trace w @ [SetupPhase, Invoke ''setup'']\<rparr>)"
  using assms by (simp add: p5_setup_def Let_def call_hook_def andThen_def log_def)

lemma p5_setup_returns:
  assumes "\<not> is_function (ctx_get w ''preload'')"
    and "\<not> (is_function (ctx_get w ''setup'') \<and> hook_outcome (ctx_get w ''setup'') = Throws)"
  shows "p5_setup w =
     (Returns, w\<lparr>trace := trace w @ SetupPhase #
                 (if is_function (ctx_get w ''setup'') then [Invoke ''setup''] else []),
               hidden := unhide (hidden w), setupDone := True\<rparr>)"
  using assms
  by (cases "hook_outcome (ctx_get w ''setup'')")
    (simp_all add: p5_setup_def Let_def call_hook_def andThen_def log_def)

lemma setup_and_run_plain:
  assumes "\<not> is_function (ctx_get w ''preload'')"
  shows "(\<exists>rest. trace (snd (setup_and_run w))
            = trace w @ SetupPhase # (if is_function (ctx_get w ''setup'') then [Invoke ''setup''] else []) @ rest
         \<and> SetupPhase \<notin> set rest \<and> Invoke ''setup'' \<notin> set rest)
     \<and> loads (snd (setup_and_run w)) = loads w"
proof (cases "is_function (ctx_get w ''setup'') \<and> hook_outcome (ctx_get w ''setup'') = Throws")
  case True
  then have r: "setup_and_run w = (Throws, w\<lparr>trace := trace w @ [SetupPhase, Invoke ''setup'']\<rparr>)"
    using assms by (simp add: setup_and_run_def p5_setup_throws andThen_def)
  from True have "trace (snd (setup_and_run w))
      = trace w @ SetupPhase # (if is_function (ctx_get w ''setup'') then [Invoke ''setup''] else []) @ []"
    by (simp add: r)
  then have "\<exists>rest. trace (snd (setup_and_run w))
            = trace w @ SetupPhase # (if is_function (ctx_get w ''setup'') then [Invoke ''setup''] else []) @ rest
         \<and> SetupPhase \<notin> set rest \<and> Invoke ''setup'' \<notin> set rest"
    by (intro exI [of _ "[]"]) simp
  then show ?thesis by (simp add: r)
next
  case False
  let ?hook = "if is_function (ctx_get w ''setup'') then [Invoke ''setup''] else []"
  define w1 where "w1 = w\<lparr>trace := trace w @ SetupPhase # ?hook, hidden := unhide (hidden w),
      setupDone := True\<rparr>"
  have "p5_setup w = (Returns, w1)"
    unfolding w1_def by (rule p5_setup_returns [OF assms False])
  then have r: "setup_and_run w = p5_draw (p5_runFrames w1)"
    by (simp add: setup_and_run_def andThen_def)
  obtain ts where ts: "trace (p5_runFrames w1) = trace w1 @ ts"
    "SetupPhase \<notin> set ts" "Invoke ''setup'' \<notin> set ts"
    using p5_runFrames_trace [of w1] by blast
  obtain us where us: "trace (snd (p5_draw (p5_runFrames w1))) = trace (p5_runFrames w1) @ us"
    "SetupPhase \<notin> set us" "Invoke ''setup'' \<notin> set us"
    using p5_draw_trace [of "p5_runFrames w1"] by blast
  have "trace (snd (setup_and_run w)) = trace w @ SetupPhase # ?hook @ (ts @ us)"
    by (simp add: r us ts) (simp add: w1_def)
  with ts us have "\<exists>rest. trace (snd (setup_and_run w)) = trace w @ SetupPhase # ?hook @ rest
         \<and> SetupPhase \<notin> set rest \<and> Invoke ''setup'' \<notin> set rest"
    by (intro exI [of _ "ts @ us"]) simp
  moreover have "loads (snd (setup_and_run w)) = loads w"
    by (simp add: r) (simp add: w1_def)
  ultimately show ?thesis by simp
qed

text \<open>
  Claim C6, as stated, fails: \<open>_start\<close> looks for the preload hook with
  \<open>this.preload || window.preload\<close> (line 186), in either mode. An instance-mode sketch
  with no preload hook of its own finds a \<open>preload\<close> function of the global object and
  calls it; here that function calls a global \<open>loadImage\<close> that nothing defines, the
  call throws, and setup never runs.
\<close>

theorem global_preload_taken_in_instance_mode:
  "\<not> isGlobal bystander \<and> inst_get bystander ''preload'' = JUndef
   \<and> is_function (inst_get bystander ''setup'')
   \<and> fst (p5_start bystander) = Throws
   \<and> trace (snd (p5_start bystander)) = [External ''createCanvas'', Invoke ''preload'']"
  by code_simp

text \<open>
  Claim C6, amended: if there is no preload hook on the instance nor on the global
  object (which the start routine consults in both modes), the setup routine is entered
  exactly once, synchronously from the start routine: the only thing the start routine
  does before it is the call of \<open>createCanvas\<close>, no timer is set and no load is waited
  for before setup, and the user setup hook, when there is one, is called exactly once,
  as the first thing of the setup phase.
\<close>

theorem start_without_preload:
  assumes "\<not> truthy (inst_get w ''preload'')" and "\<not> truthy (win_get w ''preload'')"
  shows "(\<exists>rest. trace (snd (p5_start w))
             = trace w @ External ''createCanvas'' # SetupPhase
                 # (if is_function (ctx_get w ''setup'') then [Invoke ''setup''] else []) @ rest
           \<and> SetupPhase \<notin> set rest \<and> Invoke ''setup'' \<notin> set rest)
     \<and> loads (snd (p5_start w)) = loads w"
proof -
  define wc where "wc = log (External ''createCanvas'') (resolve_node w)"
  have g: "inst_get wc k = inst_get w k" "win_get wc k = win_get w k" "ctx_get wc k = ctx_get w k"
    "loads wc = loads w" "trace wc = trace w @ [External ''createCanvas'']" for k
    by (simp_all add: wc_def log_def resolve_node_def split: option.splits node.splits)
  from assms have np: "\<not> is_function (ctx_get wc ''preload'')"
    by (simp add: g ctx_get_def not_truthy_not_function)
  from assms have "p5_start w = setup_and_run wc"
    by (simp add: p5_start_def external_def andThen_def wc_def [symmetric] g js_or_def Let_def)
  with setup_and_run_plain [OF np] show ?thesis by (simp add: g)
qed

theorem start_without_preload_witness:
  "\<not> truthy (inst_get drawer ''preload'') \<and> \<not> truthy (win_get drawer ''preload'')
   \<and> take 2 (trace (snd (p5_start drawer))) = [External ''createCanvas'', SetupPhase]
   \<and> count_list (trace (snd (p5_start drawer))) SetupPhase = 1
   \<and> loads (snd (p5_start drawer)) = []"
proof -
  have a: "\<not> truthy (inst_get drawer ''preload'')" by code_simp
  have b: "\<not> truthy (win_get drawer ''preload'')" by code_simp
  have c: "trace drawer = []" by code_simp
  have d: "loads drawer = []" by code_simp
  have e: "\<not> is_function (ctx_get drawer ''setup'')" by code_simp
  from start_without_preload [OF a b] obtain rest where
    "trace (snd (p5_start drawer)) = [External ''createCanvas'', SetupPhase] @ rest"
    "SetupPhase \<notin> set rest" "loads (snd (p5_start drawer)) = []"
    by (auto simp add: c d e)
  with a b show ?thesis by simp
qed

text \<open>
  Claim C1 fails on the code when a triggered call completes synchronously. The
  completion callback brings the counter back to zero inside the preload hook and runs
  setup (lines 211-216); when the hook has returned, \<open>_start\<close> finds the counter at zero
  and runs setup again (lines 195-199). The user setup hook is invoked twice.
  With completions that arrive after the hook has returned the gate works; see
  \<open>asynchronous_preload_gate\<close> below.
\<close>

theorem synchronous_completion_runs_setup_twice:
  "fst (p5_start sync_sketch) = Returns
   \<and> trace (snd (p5_start sync_sketch))
       = [External ''createCanvas'', Invoke ''preload'', External ''loadJSON'',
          SetupPhase, Invoke ''setup'', TimerSet 1, TimerSet 2,
          SetupPhase, Invoke ''setup'', TimerClear 1, TimerSet 3, TimerClear 2, TimerSet 4]
   \<and> count_list (trace (snd (p5_start sync_sketch))) (Invoke ''setup'') = 2"
  by code_simp

subsection \<open>The gate with completions that arrive later\<close>

lemma gets_loads_frame [simp]:
  "inst_get (w\<lparr>loads := l\<rparr>) k = inst_get w k"
  "win_get (w\<lparr>loads := l\<rparr>) k = win_get w k"
  "ctx_get (w\<lparr>loads := l\<rparr>) k = ctx_get w k"
  "inst_get (w\<lparr>nextLoad := n\<rparr>) k = inst_get w k"
  "win_get (w\<lparr>nextLoad := n\<rparr>) k = win_get w k"
  "ctx_get (w\<lparr>nextLoad := n\<rparr>) k = ctx_get w k"
  "proto_get (w\<lparr>trace := t\<rparr>) k = proto_get w k"
  "proto_get (w\<lparr>loads := l\<rparr>) k = proto_get w k"
  "proto_get (w\<lparr>nextLoad := n\<rparr>) k = proto_get w k"
  by (simp_all add: ctx_get_def win_get_def inst_get_def proto_get_def)

lemma ctx_get_setProperty [simp]:
  "take 2 k \<noteq> ''on'' \<Longrightarrow>
   ctx_get (p5_setProperty k v w) k' = (if k' = k then v else ctx_get w k')"
  by (simp add: ctx_get_def p5_setProperty_def Let_def win_put_def this_put_def win_get_def
      inst_get_def)

lemma setProperty_fields [simp]:
  "trace (p5_setProperty k v w) = trace w"
  "loads (p5_setProperty k v w) = loads w"
  "nextLoad (p5_setProperty k v w) = nextLoad w"
  "isGlobal (p5_setProperty k v w) = isGlobal w"
  "preloadFuncs (p5_setProperty k v w) = preloadFuncs w"
  "proto (p5_setProperty k v w) = proto w"
  "proto_get (p5_setProperty k v w) f = proto_get w f"
  by (simp_all add: p5_setProperty_def Let_def win_put_def this_put_def proto_get_def)

lemma ctx_put_gets:
  "is_object v \<Longrightarrow> ctx_get (ctx_put k v w) k' = (if k' = k then v else ctx_get w k')"
  "isGlobal (ctx_put k v w) = isGlobal w"
  "trace (ctx_put k v w) = trace w"
  "loads (ctx_put k v w) = loads w"
  "nextLoad (ctx_put k v w) = nextLoad w"
  "preloadFuncs (ctx_put k v w) = preloadFuncs w"
  "proto (ctx_put k v w) = proto w"
  "k \<noteq> k' \<Longrightarrow> inst_get (ctx_put k v w) k' = inst_get w k'"
  by (simp_all add: ctx_put_def ctx_get_def win_put_def this_put_def win_get_def inst_get_def)

lemma install_fold:
  "ctx_get (foldl (\<lambda>w f. ctx_put f (JWrapper f) w) w fs) k
      = (if k \<in> set fs then JWrapper k else ctx_get w k)
   \<and> (k \<notin> set fs \<longrightarrow> inst_get (foldl (\<lambda>w f. ctx_put f (JWrapper f) w) w fs) k = inst_get w k)
   \<and> isGlobal (foldl (\<lambda>w f. ctx_put f (JWrapper f) w) w fs) = isGlobal w
   \<and> trace (foldl (\<lambda>w f. ctx_put f (JWrapper f) w) w fs) = trace w
   \<and> loads (foldl (\<lambda>w f. ctx_put f (JWrapper f) w) w fs) = loads w
   \<and> nextLoad (foldl (\<lambda>w f. ctx_put f (JWrapper f) w) w fs) = nextLoad w
   \<and> preloadFuncs (foldl (\<lambda>w f. ctx_put f (JWrapper f) w) w fs) = preloadFuncs w
   \<and> proto (foldl (\<lambda>w f. ctx_put f (JWrapper f) w) w fs) = proto w"
proof (induction fs arbitrary: w)
  case Nil
  then show ?case by simp
next
  case (Cons f fs)
  from Cons.IH [of "ctx_put f (JWrapper f) w"] show ?case
    by (auto simp add: ctx_put_gets)
qed

lemma install_wrappers_wrapped:
  assumes "''_preloadCount'' \<notin> set (preloadFuncs w)"
  shows "wrapped (install_wrappers w)"
    and "ctx_get (install_wrappers w) ''_preloadCount'' = ctx_get w ''_preloadCount''"
    and "inst_get (install_wrappers w) ''_preloadCount'' = inst_get w ''_preloadCount''"
    and "isGlobal (install_wrappers w) = isGlobal w"
    and "trace (install_wrappers w) = trace w"
    and "loads (install_wrappers w) = loads w"
    and "preloadFuncs (install_wrappers w) = preloadFuncs w"
    and "proto (install_wrappers w) = proto w"
  using assms install_fold [of w "preloadFuncs w"]
  by (simp_all add: install_wrappers_def wrapped_def list_all_iff)


lemma p5_preload_async:
  assumes "is_function (proto_get w f)" and "gate n w" and "wrapped w" and "f \<in> set (preloadFuncs w)"
  shows "\<exists>w'. p5_preload f Async w = (Returns, w') \<and> gate (Suc n) w' \<and> wrapped w'
     \<and> isGlobal w' = isGlobal w \<and> preloadFuncs w' = preloadFuncs w \<and> proto w' = proto w
     \<and> setups w' = setups w \<and> loads w' = loads w @ [nextLoad w]
     \<and> nextLoad w' = Suc (nextLoad w)"
proof -
  let ?v = "JNumber (js_add (to_number (ctx_get w ''_preloadCount'')) (Num 1))"
  let ?w1 = "p5_setProperty ''_preloadCount'' ?v w"
  let ?w' = "(log (External f) ?w1)\<lparr>loads := loads w @ [nextLoad w], nextLoad := Suc (nextLoad w)\<rparr>"
  have v: "?v = JNumber (Num (of_nat (Suc n)))"
    using assms(2) by (simp add: gate_def add.commute)
  have r: "p5_preload f Async w = (Returns, ?w')"
    using assms(1) by (simp add: p5_preload_def Let_def log_def)
  have g: "gate (Suc n) ?w'"
    by (simp only: v) (simp add: gate_def log_def)
  from assms(3) have np: "''_preloadCount'' \<notin> set (preloadFuncs w)"
    and all: "\<forall>g \<in> set (preloadFuncs w). ctx_get w g = JWrapper g"
    by (simp_all add: wrapped_def list_all_iff)
  have wr: "wrapped ?w'"
    using np all by (auto simp add: wrapped_def list_all_iff log_def)
  have rest: "isGlobal ?w' = isGlobal w" "preloadFuncs ?w' = preloadFuncs w" "proto ?w' = proto w"
    "setups ?w' = setups w" "loads ?w' = loads w @ [nextLoad w]" "nextLoad ?w' = Suc (nextLoad w)"
    by (simp_all add: log_def setups_def)
  from r g wr rest show ?thesis by blast
qed

lemma run_call_tracked:
  assumes "tracked_async w c" and "wrapped w"
  shows "\<exists>f. run_call c w = p5_preload f Async w \<and> f \<in> set (preloadFuncs w)
            \<and> is_function (proto_get w f)"
proof -
  obtain r f t where c: "c = Load r f t" by (cases c)
  from assms(1) have t: "r = ctx_receiver w" "t = Async" "f \<in> set (preloadFuncs w)"
    "is_function (proto_get w f)"
    by (simp_all add: tracked_async_def c)
  from assms(2) t(3) have "ctx_get w f = JWrapper f"
    by (simp add: wrapped_def list_all_iff)
  then have "(case r of OnWindow \<Rightarrow> win_get w f | OnInstance \<Rightarrow> inst_get w f) = JWrapper f"
    by (simp add: t(1) ctx_receiver_def ctx_get_def split: if_splits)
  then have "run_call c w = p5_preload f Async w"
    by (simp add: run_call_def c t(2) Let_def)
  with t show ?thesis by blast
qed

lemma tracked_async_cong:
  "isGlobal w1 = isGlobal w \<Longrightarrow> preloadFuncs w1 = preloadFuncs w \<Longrightarrow> proto w1 = proto w \<Longrightarrow>
   tracked_async w1 c = tracked_async w c"
  by (cases c) (simp add: tracked_async_def ctx_receiver_def proto_get_def)

lemma run_calls_tracked:
  assumes "\<forall>c \<in> set cs. tracked_async w c" and "gate n w" and "wrapped w"
  shows "\<exists>w'. run_calls cs w = (Returns, w') \<and> gate (n + length cs) w'
     \<and> setups w' = setups w
     \<and> loads w' = loads w @ [nextLoad w ..< nextLoad w + length cs]"
  using assms
proof (induction cs arbitrary: w n)
  case Nil
  then show ?case by simp
next
  case (Cons c cs)
  from Cons.prems(1) have "tracked_async w c" by simp
  from run_call_tracked [OF this Cons.prems(3)]
  obtain f where f: "run_call c w = p5_preload f Async w"
    "f \<in> set (preloadFuncs w)" "is_function (proto_get w f)"
    by blast
  from p5_preload_async [OF f(3) Cons.prems(2) Cons.prems(3) f(2)]
  obtain w1 where w1: "p5_preload f Async w = (Returns, w1)" "gate (Suc n) w1" "wrapped w1"
    "isGlobal w1 = isGlobal w" "preloadFuncs w1 = preloadFuncs w" "proto w1 = proto w"
    "setups w1 = setups w" "loads w1 = loads w @ [nextLoad w]" "nextLoad w1 = Suc (nextLoad w)"
    by blast
  from Cons.prems(1) have tr: "\<forall>c \<in> set cs. tracked_async w1 c"
    by (simp add: tracked_async_cong [OF w1(4) w1(5) w1(6)])
  from Cons.IH [OF tr w1(2) w1(3)]
  obtain w' where w': "run_calls cs w1 = (Returns, w')" "gate (Suc n + length cs) w'"
    "setups w' = setups w1"
    "loads w' = loads w1 @ [nextLoad w1 ..< nextLoad w1 + length cs]"
    by blast
  have 1: "run_calls (c # cs) w = (Returns, w')"
    by (simp add: f(1) w1(1) w'(1) andThen_def)
  have 2: "gate (n + length (c # cs)) w'"
    using w'(2) by simp
  have 3: "setups w' = setups w"
    by (simp add: w'(3) w1(7))
  have "[nextLoad w ..< nextLoad w + length (c # cs)]
      = nextLoad w # [Suc (nextLoad w) ..< Suc (nextLoad w) + length cs]"
    by (subst upt_rec) simp
  then have 4: "loads w' = loads w @ [nextLoad w ..< nextLoad w + length (c # cs)]"
    by (simp only: w'(4) w1(8) w1(9)) simp
  from 1 2 3 4 show ?case by blast
qed

lemma trace_restore_loaders [simp]: "trace (restore_loaders w) = trace w"
proof -
  have "trace (foldl (\<lambda>w f. ctx_put f (proto_get w f) w) w fs) = trace w" for fs
    by (induction fs arbitrary: w) (simp_all add: ctx_put_gets)
  then show ?thesis by (simp add: restore_loaders_def)
qed

lemma p5_setup_trace:
  "\<exists>ts. trace (snd (p5_setup w)) = trace w @ SetupPhase # ts \<and> SetupPhase \<notin> set ts"
proof -
  define w1 where "w1 = (if is_function (ctx_get (log SetupPhase w) ''preload'')
      then restore_loaders (log SetupPhase w) else log SetupPhase w)"
  have t: "trace w1 = trace w @ [SetupPhase]"
    by (simp add: w1_def log_def)
  have "p5_setup w = andThen
           (if is_function (ctx_get w1 ''setup'')
            then call_hook ''setup'' (ctx_get w1 ''setup'') w1 else (Returns, w1))
           (\<lambda>w2. (Returns, w2\<lparr>hidden := unhide (hidden w2), setupDone := True\<rparr>))"
    by (simp add: p5_setup_def Let_def w1_def)
  then show ?thesis
    by (cases "hook_outcome (ctx_get w1 ''setup'')")
      (simp_all add: call_hook_def andThen_def log_def t)
qed

lemma setup_and_run_setups: "setups (snd (setup_and_run w)) = Suc (setups w)"
proof -
  obtain ts where ts: "trace (snd (p5_setup w)) = trace w @ SetupPhase # ts"
    "SetupPhase \<notin> set ts"
    using p5_setup_trace [of w] by blast
  show ?thesis
  proof (cases "p5_setup w")
    case (Pair oc w1)
    show ?thesis
    proof (cases oc)
      case Throws
      with Pair ts show ?thesis
        by (simp add: setup_and_run_def andThen_def setups_def)
    next
      case Returns
      obtain us where us: "trace (p5_runFrames w1) = trace w1 @ us" "SetupPhase \<notin> set us"
        using p5_runFrames_trace [of w1] by blast
      obtain vs where vs: "trace (snd (p5_draw (p5_runFrames w1))) = trace (p5_runFrames w1) @ vs"
        "SetupPhase \<notin> set vs"
        using p5_draw_trace [of "p5_runFrames w1"] by blast
      from Pair Returns have "setup_and_run w = p5_draw (p5_runFrames w1)"
        by (simp add: setup_and_run_def andThen_def)
      with Pair ts us vs show ?thesis
        by (simp add: setups_def)
    qed
  qed
qed


lemma loads_restore_loaders [simp]: "loads (restore_loaders w) = loads w"
proof -
  have "loads (foldl (\<lambda>w f. ctx_put f (proto_get w f) w) w fs) = loads w" for fs
    by (induction fs arbitrary: w) (simp_all add: ctx_put_gets)
  then show ?thesis by (simp add: restore_loaders_def)
qed

lemma loads_p5_setup [simp]: "loads (snd (p5_setup w)) = loads w"
proof -
  define w1 where "w1 = (if is_function (ctx_get (log SetupPhase w) ''preload'')
      then restore_loaders (log SetupPhase w) else log SetupPhase w)"
  have t: "loads w1 = loads w"
    by (simp add: w1_def log_def)
  have "p5_setup w = andThen
           (if is_function (ctx_get w1 ''setup'')
            then call_hook ''setup'' (ctx_get w1 ''setup'') w1 else (Returns, w1))
           (\<lambda>w2. (Returns, w2\<lparr>hidden := unhide (hidden w2), setupDone := True\<rparr>))"
    by (simp add: p5_setup_def Let_def w1_def)
  then show ?thesis
    by (cases "hook_outcome (ctx_get w1 ''setup'')")
      (simp_all add: call_hook_def andThen_def log_def t)
qed

lemma loads_setup_and_run [simp]: "loads (snd (setup_and_run w)) = loads w"
proof (cases "p5_setup w")
  case (Pair oc w1)
  then have "loads w1 = loads w"
    using loads_p5_setup [of w] by simp
  with Pair show ?thesis
    by (cases oc) (simp_all add: setup_and_run_def andThen_def)
qed

lemma run_Cons [simp]: "run (e # es) w = run es (step e w)"
  by (simp add: run_def)

lemma run_Nil [simp]: "run [] w = w"
  by (simp add: run_def)

declare step.simps [simp del]

lemma load_completes:
  assumes "k \<in> set (loads w)" and "gate (length (loads w)) w"
  shows "if length (loads w) = 1
         then setups (step (LoadCompletes k) w) = Suc (setups w)
         else setups (step (LoadCompletes k) w) = setups w
              \<and> loads (step (LoadCompletes k) w) = remove1 k (loads w)
              \<and> gate (length (loads w) - 1) (step (LoadCompletes k) w)"
proof -
  from assms(1) obtain m where m: "length (loads w) = Suc m"
    by (cases "loads w") auto
  let ?v = "w\<lparr>loads := remove1 k (loads w)\<rparr>"
  let ?w1 = "p5_setProperty ''_preloadCount'' (JNumber (Num (of_nat m))) ?v"
  from assms(2) have "js_sub (to_number (ctx_get ?v ''_preloadCount'')) (Num 1) = Num (of_nat m)"
    by (simp add: gate_def m js_sub_def)
  then have pd: "preload_done ?v = (if m = 0 then setup_and_run ?w1 else (Returns, ?w1))"
    by (simp add: preload_done_def Let_def)
  have st: "step (LoadCompletes k) w = snd (preload_done ?v)"
    using assms(1) by (simp add: step.simps)
  show ?thesis
  proof (cases "m = 0")
    case True
    then have "setups (step (LoadCompletes k) w) = Suc (setups w)"
      by (simp only: st pd) (simp add: setup_and_run_setups, simp add: setups_def)
    with True show ?thesis by (simp add: m)
  next
    case False
    then have "setups (step (LoadCompletes k) w) = setups w"
      and "loads (step (LoadCompletes k) w) = remove1 k (loads w)"
      and "gate m (step (LoadCompletes k) w)"
      by (simp_all only: st pd) (simp_all add: setups_def gate_def)
    with False show ?thesis by (simp add: m)
  qed
qed

lemma drain:
  assumes "gate (length (loads w)) w" and "distinct (loads w)" and "loads w \<noteq> []"
    and "distinct ks" and "set ks = set (loads w)" and "n \<le> length ks"
  shows "setups (run (map LoadCompletes (take n ks)) w)
           = setups w + (if n = length ks then 1 else 0)"
  using assms
proof (induction ks arbitrary: w n)
  case Nil
  then show ?case by simp
next
  case (Cons k ks)
  show ?case
  proof (cases n)
    case 0
    then show ?thesis by simp
  next
    case (Suc n')
    from Cons.prems(5) have kin: "k \<in> set (loads w)" by auto
    have len: "length (loads w) = Suc (length ks)"
      using Cons.prems(2,4,5) distinct_card [of "loads w"] distinct_card [of "k # ks"]
      by simp
    note lc = load_completes [OF kin Cons.prems(1)]
    show ?thesis
    proof (cases "ks = []")
      case True
      with len have "length (loads w) = 1" by simp
      with lc have "setups (step (LoadCompletes k) w) = Suc (setups w)" by simp
      with True Suc Cons.prems(6) show ?thesis by simp
    next
      case False
      with len have ne1: "length (loads w) \<noteq> 1" by simp
      let ?w' = "step (LoadCompletes k) w"
      from lc ne1 have s: "setups ?w' = setups w"
        and l: "loads ?w' = remove1 k (loads w)"
        and g: "gate (length (loads w) - 1) ?w'"
        by simp_all
      have g': "gate (length (loads ?w')) ?w'"
        using g kin by (simp add: l length_remove1)
      have d': "distinct (loads ?w')"
        using Cons.prems(2) by (simp add: l)
      have set': "set ks = set (loads ?w')"
        using Cons.prems(2,4,5) by (auto simp add: l)
      have ne': "loads ?w' \<noteq> []"
        using set' False by auto
      from Cons.prems(4) have dk: "distinct ks" by simp
      from Cons.prems(6) Suc have n': "n' \<le> length ks" by simp
      from Cons.IH [OF g' d' ne' dk set' n'] s Suc show ?thesis by simp
    qed
  qed
qed

lemma wrapped_log [simp]: "wrapped (log a w) = wrapped w"
  by (simp add: wrapped_def log_def)

lemma gate_log [simp]: "gate n (log a w) = gate n w"
  by (simp add: gate_def log_def)

text \<open>
  What the counting gate does guarantee. Let the preload hook return after making any
  number of calls through the wrappers, each with a loader that completes later, on an
  instance whose counter is zero and that has no load in flight. Then every call is in
  flight when the start routine returns, and along every order \<open>ks\<close> in which the
  loads complete the setup routine has been entered once when the last of them has
  completed, and not before. With no call at all the start routine itself enters it,
  once.
\<close>

lemma asynchronous_preload_gate:
  assumes hook: "js_or (inst_get w ''preload'') (win_get w ''preload'') = JUser cs Returns"
    and calls: "\<forall>c \<in> set cs. tracked_async w c"
    and zero: "gate 0 w"
    and names: "''_preloadCount'' \<notin> set (preloadFuncs w)"
    and idle: "loads w = []"
    and order: "distinct ks" "set ks = set (loads (snd (p5_start w)))"
    and n: "n \<le> length ks"
  shows "length (loads (snd (p5_start w))) = length cs
     \<and> setups (run (map LoadCompletes (take n ks)) (snd (p5_start w)))
         = setups w + (if n = length ks then 1 else 0)"
proof -
  define wc where "wc = log (External ''createCanvas'') (resolve_node w)"
  have rn: "inst_get (resolve_node w) k = inst_get w k" "win_get (resolve_node w) k = win_get w k"
    "ctx_get (resolve_node w) k = ctx_get w k" "loads (resolve_node w) = loads w"
    "trace (resolve_node w) = trace w" "preloadFuncs (resolve_node w) = preloadFuncs w"
    "isGlobal (resolve_node w) = isGlobal w" "proto (resolve_node w) = proto w"
    "nextLoad (resolve_node w) = nextLoad w" for k
    by (simp_all add: resolve_node_def split: option.splits node.splits)
  have c: "inst_get wc k = inst_get w k" "win_get wc k = win_get w k" "ctx_get wc k = ctx_get w k"
    "loads wc = loads w" "setups wc = setups w" "preloadFuncs wc = preloadFuncs w"
    "isGlobal wc = isGlobal w" "proto wc = proto w" for k
    by (simp_all add: wc_def log_def rn setups_def)
  define wi where "wi = log (Invoke ''preload'') (install_wrappers wc)"
  from names have nm: "''_preloadCount'' \<notin> set (preloadFuncs wc)" by (simp add: c)
  note iw = install_wrappers_wrapped [OF nm]
  have tw: "trace wi = trace w @ [External ''createCanvas'', Invoke ''preload'']"
    by (simp add: wi_def log_def iw) (simp add: wc_def log_def rn)
  have wi: "wrapped wi" "gate 0 wi" "loads wi = []" "setups wi = setups w"
    "isGlobal wi = isGlobal w" "preloadFuncs wi = preloadFuncs w" "proto wi = proto w"
  proof -
    show "wrapped wi" by (simp add: wi_def iw)
    show "gate 0 wi" using zero by (simp add: wi_def) (simp add: gate_def iw c)
    show "loads wi = []" using idle by (simp add: wi_def log_def iw c)
    show "setups wi = setups w" by (simp add: setups_def tw)
    show "isGlobal wi = isGlobal w" by (simp add: wi_def log_def iw c)
    show "preloadFuncs wi = preloadFuncs w" by (simp add: wi_def log_def iw c)
    show "proto wi = proto w" by (simp add: wi_def log_def iw c)
  qed
  from calls have tr: "\<forall>c \<in> set cs. tracked_async wi c"
    by (simp add: tracked_async_cong [OF wi(5) wi(6) wi(7)])
  from run_calls_tracked [OF tr wi(2) wi(1)]
  obtain w' where w': "run_calls cs wi = (Returns, w')" "gate (length cs) w'"
    "setups w' = setups w" "loads w' = [nextLoad wi ..< nextLoad wi + length cs]"
    by (auto simp add: wi)
  have start: "p5_start w =
      (if inst_get w' ''_preloadCount'' = JNumber (Num 0) then setup_and_run w' else (Returns, w'))"
    using hook
    by (simp add: p5_start_def external_def andThen_def wc_def [symmetric] c Let_def
        call_preload_def wi_def [symmetric] w'(1))
  from w'(2) have z: "(inst_get w' ''_preloadCount'' = JNumber (Num 0)) = (cs = [])"
    by (simp add: gate_def)
  show ?thesis
  proof (cases "cs = []")
    case True
    with start z have s: "p5_start w = setup_and_run w'" by simp
    from True w'(4) have l: "loads (snd (p5_start w)) = []" by (simp add: s)
    with order have "ks = []" by simp
    with n True l show ?thesis by (simp add: s setup_and_run_setups w'(3))
  next
    case False
    with start z have s: "snd (p5_start w) = w'" by simp
    have g: "gate (length (loads w')) w'" using w'(2) by (simp add: w'(4))
    have d: "distinct (loads w')" by (simp add: w'(4))
    have ne: "loads w' \<noteq> []" using False by (simp add: w'(4))
    from order have o: "set ks = set (loads w')" by (simp add: s)
    from drain [OF g d ne order(1) o n] show ?thesis
      by (simp add: s w'(3)) (simp add: w'(4))
  qed
qed

lemma asynchronous_preload_gate_example:
  "loads (snd (p5_start async_sketch)) = [0, 1]
   \<and> setups (snd (p5_start async_sketch)) = 0
   \<and> setups (run [LoadCompletes 1] (snd (p5_start async_sketch))) = 0
   \<and> setups (run [LoadCompletes 1, LoadCompletes 0] (snd (p5_start async_sketch))) = 1"
proof -
  have h: "js_or (inst_get async_sketch ''preload'') (win_get async_sketch ''preload'')
      = JUser [Load OnInstance ''loadJSON'' Async, Load OnInstance ''loadImage'' Async] Returns"
    by code_simp
  have c: "\<forall>c \<in> set [Load OnInstance ''loadJSON'' Async, Load OnInstance ''loadImage'' Async].
      tracked_async async_sketch c"
    by code_simp
  have z: "gate 0 async_sketch" by code_simp
  have nm: "''_preloadCount'' \<notin> set (preloadFuncs async_sketch)" by code_simp
  have i: "loads async_sketch = []" by code_simp
  have l: "loads (snd (p5_start async_sketch)) = [0, 1]" by code_simp
  have d: "distinct [1, 0 :: nat]" by simp
  have o: "set [1, 0 :: nat] = set (loads (snd (p5_start async_sketch)))"
    by (simp add: l insert_commute)
  have s0: "setups async_sketch = 0" by code_simp
  from asynchronous_preload_gate [OF h c z nm i d o, of 0]
    asynchronous_preload_gate [OF h c z nm i d o, of 1]
    asynchronous_preload_gate [OF h c z nm i d o, of 2] l s0
  show ?thesis by simp
qed

section \<open>Construction in Global mode\<close>

text \<open>
  After its two loops over the capability table and over its own properties the
  constructor subscribes the event hooks and either runs the start routine or
  subscribes it to the load event. Of the global namespace the start routine writes
  the preload counter and the registered preload-trigger names and nothing else, and it
  leaves the mode, the registry of preload-trigger names and the handler attributes of
  the global object as they are: \<open>global_view\<close> is kept by every routine the start
  routine reaches.
\<close>

lemma global_view_simple [simp]:
  "global_view (log a w) = global_view w"
  "global_view (this_put k v w) = global_view w"
  "global_view (w\<lparr>trace := t\<rparr>) = global_view w"
  "global_view (w\<lparr>armed := ar\<rparr>) = global_view w"
  "global_view (w\<lparr>nextTimer := n\<rparr>) = global_view w"
  "global_view (w\<lparr>updateInterval := n\<rparr>) = global_view w"
  "global_view (w\<lparr>drawInterval := d\<rparr>) = global_view w"
  "global_view (w\<lparr>styles := st\<rparr>) = global_view w"
  "global_view (w\<lparr>hidden := h\<rparr>) = global_view w"
  "global_view (w\<lparr>setupDone := b\<rparr>) = global_view w"
  "global_view (w\<lparr>loads := l\<rparr>) = global_view w"
  "global_view (w\<lparr>nextLoad := n\<rparr>) = global_view w"
  "global_view (w\<lparr>userNode := u\<rparr>) = global_view w"
  "global_view (w\<lparr>listeners := ls\<rparr>) = global_view w"
  "global_view (w\<lparr>events := es\<rparr>) = global_view w"
  "global_view (w\<lparr>own := ow\<rparr>) = global_view w"
  by (simp_all add: global_view_def log_def this_put_def cong: if_cong)

lemma global_view_win_put:
  "k = ''_preloadCount'' \<or> k \<in> set (preloadFuncs w) \<Longrightarrow> global_view (win_put k v w) = global_view w"
  by (auto simp add: global_view_def win_put_def)

lemma global_view_ctx_put:
  "k = ''_preloadCount'' \<or> k \<in> set (preloadFuncs w) \<Longrightarrow> global_view (ctx_put k v w) = global_view w"
  by (simp add: ctx_put_def global_view_win_put)

lemma global_view_setProperty [simp]: "global_view (p5_setProperty ''_preloadCount'' v w) = global_view w"
  by (simp add: p5_setProperty_def Let_def global_view_win_put this_put_def)

lemma global_view_andThen:
  assumes "\<And>w1. global_view (snd (f w1)) = global_view w1"
  shows "global_view (snd (andThen r f)) = global_view (snd r)"
  using assms by (cases r) (simp add: andThen_def split: outcome.splits)

lemma global_view_external [simp]: "global_view (snd (external n w)) = global_view w"
  by (simp add: external_def)

lemma global_view_runFrames [simp]: "global_view (p5_runFrames w) = global_view w"
  by (simp add: p5_runFrames_eq Let_def clearTimer_def log_def)

lemma global_view_measure_frame [simp]: "global_view (measure_frame w) = global_view w"
  by (simp add: measure_frame_def Let_def)

lemma global_view_p5_draw [simp]: "global_view (snd (p5_draw w)) = global_view w"
proof (cases "loop w")
  case False
  then show ?thesis by (simp add: p5_draw_paused scoped_draw_eq)
next
  case True
  obtain a pre where "arm_draw (measure_frame w)
      = (measure_frame w)\<lparr>armed := a @ [(nextTimer w, DrawDefer, frameDelay w)],
          nextTimer := Suc (nextTimer w),
          trace := trace w @ pre @ [TimerSet (nextTimer w)],
          drawInterval := Some (nextTimer w)\<rparr>"
    by (rule arm_draw_measured)
  then show ?thesis using True by (simp add: p5_draw_looping scoped_draw_eq)
qed

lemma global_view_ctx_fold:
  "set fs \<subseteq> set (preloadFuncs w) \<Longrightarrow> global_view (foldl (\<lambda>w f. ctx_put f (g w f) w) w fs) = global_view w"
proof (induction fs arbitrary: w)
  case Nil
  then show ?case by simp
next
  case (Cons f fs)
  from Cons.prems have v: "global_view (ctx_put f (g w f) w) = global_view w"
    by (simp add: global_view_ctx_put)
  then have "preloadFuncs (ctx_put f (g w f) w) = preloadFuncs w"
    by (simp add: global_view_def)
  with Cons.prems have "set fs \<subseteq> set (preloadFuncs (ctx_put f (g w f) w))" by simp
  from Cons.IH [OF this] v show ?case by simp
qed

lemma global_view_restore_loaders [simp]: "global_view (restore_loaders w) = global_view w"
  by (simp add: restore_loaders_def global_view_ctx_fold)

lemma global_view_install_wrappers [simp]: "global_view (install_wrappers w) = global_view w"
  by (simp add: install_wrappers_def global_view_ctx_fold [where g = "\<lambda>w f. JWrapper f"])

lemma global_view_call_hook [simp]: "global_view (snd (call_hook n f w)) = global_view w"
  by (simp add: call_hook_def)

lemma global_view_p5_setup [simp]: "global_view (snd (p5_setup w)) = global_view w"
  by (simp add: p5_setup_def Let_def global_view_andThen)

lemma global_view_setup_and_run [simp]: "global_view (snd (setup_and_run w)) = global_view w"
  by (simp add: setup_and_run_def global_view_andThen)

lemma global_view_preload_done [simp]: "global_view (snd (preload_done w)) = global_view w"
  by (simp add: preload_done_def Let_def)

lemma global_view_p5_preload [simp]: "global_view (snd (p5_preload f t w)) = global_view w"
  by (cases t) (simp_all add: p5_preload_def Let_def)

lemma global_view_run_call [simp]: "global_view (snd (run_call c w)) = global_view w"
  by (cases c) (simp add: run_call_def Let_def split: jsval.splits)

lemma global_view_run_calls [simp]: "global_view (snd (run_calls cs w)) = global_view w"
  by (induction cs arbitrary: w) (simp_all add: global_view_andThen)

lemma global_view_call_preload [simp]: "global_view (snd (call_preload f w)) = global_view w"
  by (cases f) (simp_all add: call_preload_def global_view_andThen)

lemma global_view_resolve_node [simp]: "global_view (resolve_node w) = global_view w"
  by (simp add: resolve_node_def split: option.splits node.splits)

lemma global_view_p5_start [simp]: "global_view (snd (p5_start w)) = global_view w"
  by (simp add: p5_start_def Let_def global_view_andThen)

lemma global_view_addEventListener [simp]: "global_view (addEventListener e h w) = global_view w"
  by (simp add: addEventListener_def)

lemma global_view_bind_event [simp]: "global_view (snd (bind_event e w)) = global_view w"
  by (simp add: bind_event_def Let_def)

lemma global_view_bind_events [simp]: "global_view (snd (bind_events es w)) = global_view w"
  by (induction es arbitrary: w) (simp_all add: global_view_andThen)



lemma expose_capability_fields:
  "isGlobal (expose_capability w pv) = isGlobal w
   \<and> preloadFuncs (expose_capability w pv) = preloadFuncs w
   \<and> handlerEvents (expose_capability w pv) = handlerEvents w
   \<and> events (expose_capability w pv) = events w
   \<and> own (expose_capability w pv) = own w
   \<and> drawInterval (expose_capability w pv) = drawInterval w"
  by (cases pv) (simp add: expose_capability_def win_put_def)

lemma expose_capabilities_fold_fields:
  "isGlobal (foldl expose_capability w caps) = isGlobal w
   \<and> preloadFuncs (foldl expose_capability w caps) = preloadFuncs w
   \<and> handlerEvents (foldl expose_capability w caps) = handlerEvents w
   \<and> events (foldl expose_capability w caps) = events w
   \<and> own (foldl expose_capability w caps) = own w
   \<and> drawInterval (foldl expose_capability w caps) = drawInterval w"
  by (induction caps arbitrary: w) (simp_all add: expose_capability_fields)

lemma reserved_hook_fold:
  "reserved_hook (foldl expose_capability w caps) p = reserved_hook w p"
  by (simp add: reserved_hook_def expose_capabilities_fold_fields)





















end
